theory Spec2Isabelle
  imports Main "HOL-Library.Sublist" "HOL-Library.AList" "HOL-Library.Multiset"
begin

section \<open>VidShare feed assembly (controllers/helpers.js)\<close>

text \<open>
  A shallow embedding of \<^verbatim>\<open>src/controllers/helpers.js\<close>: the condition manipulator
  (\<^verbatim>\<open>applyManipulationToFirstVideo\<close>), the action replay and the feed assembler
  (\<^verbatim>\<open>getFeed\<close>, \<^verbatim>\<open>getTutorial\<close>).

  Conventions of the embedding.
  \<^item> JavaScript objects with a fixed set of properties are records. A property that the
    code may find \<^verbatim>\<open>undefined\<close> or \<^verbatim>\<open>null\<close> is an \<open>option\<close>; a boolean property that
    is only ever tested for truthiness is a \<open>bool\<close> (\<open>False\<close> for an absent one).
  \<^item> Numbers are \<open>int\<close> (times in milliseconds, counters) or \<open>nat\<close> (comment numbers).
  \<^item> A \<^verbatim>\<open>TypeError\<close> raised by reading a property of \<^verbatim>\<open>undefined\<close>/\<^verbatim>\<open>null\<close> is the
    value \<open>Inl TypeError\<close>; the asynchronous functions return \<open>error + result\<close>.
  \<^item> The Mongoose collections are an explicit store \<open>db\<close>; every query takes the store and
    returns it, so that a write would be visible in the returned store.
  \<^item> \<^verbatim>\<open>Date.now()\<close>, \<^verbatim>\<open>new mongoose.Types.ObjectId()\<close> and \<^verbatim>\<open>process.env\<close> are
    inputs, collected in the record \<open>env\<close>.
  \<^item> An array is read at an index with \<open>xs ! i\<close> only where the index was returned by
    \<open>findIndex\<close> on that array or is the index of an element just pushed, so that it is
    in range; every other read goes through \<open>at_index\<close>.
  \<^item> The schemas of the Script and Actor models are not part of the sources read here: the
    documents have the properties the code reads and writes, and an array property that
    the code never sets is empty.
\<close>

subsection \<open>Data\<close>

datatype error = TypeError

record profile =
  name :: string
  location :: string
  bio :: string
  color :: string
  picture :: string

text \<open>An Actor document; \<open>actor_ident\<close> is \<^verbatim>\<open>_id\<close>, \<open>actor_class\<close> is \<^verbatim>\<open>class\<close>.\<close>

record actor =
  actor_ident :: string
  username :: string
  profile :: profile
  actor_class :: "string option"

text \<open>
  The properties shared by comments and subcomments (\<open>ident\<close> is \<^verbatim>\<open>id\<close>, \<open>class_tag\<close> is
  \<^verbatim>\<open>class\<close>). A populated \<^verbatim>\<open>actor\<close> reference that found no document is \<open>None\<close>.
\<close>

record subcomment =
  ident :: "string option"
  commentID :: nat
  body :: string
  likes :: int
  unlikes :: int
  actor :: "actor option"
  time :: int
  class_tag :: string
  new_comment :: bool
  liked :: bool
  unliked :: bool
  flagged :: bool
  reply_to :: "nat option"
  parent_comment :: "nat option"

record comment = subcomment +
  removed :: bool
  allowInteractions :: "bool option"
  subcomments :: "subcomment list"

text \<open>
  A Script document (a video post). \<open>props\<close> holds the boolean properties that the code
  assigns to the document by name (\<^verbatim>\<open>script_feed[0].like = true\<close>); a name that was never
  assigned reads as \<^verbatim>\<open>undefined\<close>, here \<open>None\<close>.
\<close>

record video =
  post_ident :: string
  postID :: int
  post_class :: string
  post_actor :: "actor option"
  comments :: "comment list"
  post_likes :: int
  post_unlikes :: int
  props :: "(string \<times> bool) list"

text \<open>One element of \<^verbatim>\<open>user.feedAction[i].comments\<close> (\<^verbatim>\<open>commentObject\<close> in the source).\<close>

record commentAction =
  act_comment :: "string option"
  act_new_comment :: bool
  new_comment_id :: nat
  act_body :: string
  act_liked :: bool
  act_unliked :: bool
  act_flagged :: bool
  relativeTime :: int
  act_reply_to :: "nat option"
  act_parent_comment :: "nat option"

text \<open>One element of \<^verbatim>\<open>user.feedAction\<close>.\<close>

record postAction =
  post :: string
  post_liked :: bool
  post_unliked :: bool
  post_flagged :: bool
  post_comments :: "commentAction list"

record user =
  interest :: string
  condition :: string
  createdAt :: int
  feedAction :: "postAction list"

record env =
  now :: int
  objectionId :: string
  HARASSMENT_COMMENT :: "string option"
  REMOVAL_AI_NO_REF :: "string option"
  REMOVAL_AI_REF :: "string option"
  REMOVAL_COM_NO_REF :: "string option"
  REMOVAL_COM_REF :: "string option"
  OBJECTION_AI_NO_REF :: "string option"
  OBJECTION_AI_REF :: "string option"
  OBJECTION_COM_NO_REF :: "string option"
  OBJECTION_COM_REF :: "string option"

text \<open>The two collections the feed core reads.\<close>

record db =
  scripts :: "video list"
  actors :: "actor list"

subsection \<open>JavaScript helpers\<close>

text \<open>\<^verbatim>\<open>Array.prototype.findIndex\<close> / \<^verbatim>\<open>_.findIndex\<close>: \<open>None\<close> is the result \<^verbatim>\<open>-1\<close>.\<close>

fun findIndex :: "('a \<Rightarrow> bool) \<Rightarrow> 'a list \<Rightarrow> nat option" where
  "findIndex P [] = None"
| "findIndex P (x # xs) = (if P x then Some 0 else map_option Suc (findIndex P xs))"

text \<open>An array read \<^verbatim>\<open>xs[k]\<close>: \<^verbatim>\<open>undefined\<close> (here \<open>None\<close>) out of range.\<close>

definition at_index :: "'a list \<Rightarrow> nat \<Rightarrow> 'a option" where
  "at_index xs k = (if k < length xs then Some (xs ! k) else None)"

text \<open>\<^verbatim>\<open>String.prototype.includes\<close> and \<^verbatim>\<open>startsWith\<close>.\<close>

fun str_includes :: "string \<Rightarrow> string \<Rightarrow> bool" where
  "str_includes [] sub = (sub = [])"
| "str_includes (x # xs) sub = (prefix sub (x # xs) \<or> str_includes xs sub)"

definition startsWith :: "string \<Rightarrow> string \<Rightarrow> bool" where
  "startsWith s p = prefix p s"

text \<open>\<^verbatim>\<open>process.env.X || fallback\<close>: an unset or empty variable gives the fallback.\<close>

definition env_or :: "string option \<Rightarrow> string \<Rightarrow> string" where
  "env_or x fallback = (case x of None \<Rightarrow> fallback
     | Some s \<Rightarrow> if s = [] then fallback else s)"

text \<open>
  \<^verbatim>\<open>xs.sort((a, b) => b.time - a.time)\<close> and \<^verbatim>\<open>xs.sort((a, b) => a.time - b.time)\<close>:
  the sort of the engine is stable, as the insertion sort \<open>sort_key\<close> is.
\<close>

definition sortByTimeDesc :: "'a subcomment_scheme list \<Rightarrow> 'a subcomment_scheme list" where
  "sortByTimeDesc cs = sort_key (\<lambda>c. - time c) cs"

definition sortByTimeAsc :: "'a subcomment_scheme list \<Rightarrow> 'a subcomment_scheme list" where
  "sortByTimeAsc cs = sort_key time cs"

subsection \<open>The queries\<close>

text \<open>
  \<^verbatim>\<open>Script.find().where('class').equals(interest).sort('postID').populate(...)\<close>. The
  store holds the documents with their actor references populated.
\<close>

definition Script_find :: "string \<Rightarrow> db \<Rightarrow> video list \<times> db" where
  "Script_find i d = (sort_key postID (filter (\<lambda>v. post_class v = i) (scripts d)), d)"

text \<open>\<^verbatim>\<open>Actor.findOne().where('username').equals(n)\<close>.\<close>

definition Actor_findOne_username :: "string \<Rightarrow> db \<Rightarrow> actor option \<times> db" where
  "Actor_findOne_username n d = (List.find (\<lambda>a. username a = n) (actors d), d)"

text \<open>\<^verbatim>\<open>Actor.find().where('class').equals(c).where('username').ne(n)\<close>.\<close>

definition Actor_find_class_not_username :: "string \<Rightarrow> string \<Rightarrow> db \<Rightarrow> actor list \<times> db" where
  "Actor_find_class_not_username c n d =
     (filter (\<lambda>a. actor_class a = Some c \<and> username a \<noteq> n) (actors d), d)"

text \<open>\<^verbatim>\<open>Actor.findOne()\<close>.\<close>

definition Actor_findOne :: "db \<Rightarrow> actor option \<times> db" where
  "Actor_findOne d = ((case actors d of [] \<Rightarrow> None | a # _ \<Rightarrow> Some a), d)"

subsection \<open>The helpers of the manipulator\<close>

definition HARASSMENT_TIME_OFFSET :: int where
  "HARASSMENT_TIME_OFFSET = -6 * 60 * 60 * 1000"

definition setHarassmentCommentTime :: "'a subcomment_scheme \<Rightarrow> 'a subcomment_scheme" where
  "setHarassmentCommentTime c = c\<lparr>time := HARASSMENT_TIME_OFFSET\<rparr>"

text \<open>\<^verbatim>\<open>toObject()\<close> copies the actor; the copy has the same properties.\<close>

definition serializeActorForSubcomment :: "actor \<Rightarrow> actor" where
  "serializeActorForSubcomment a = a"

text \<open>
  \<^verbatim>\<open>setDeletedActor(comment, originalActor)\<close> reads \<^verbatim>\<open>originalActor._id\<close>: a TypeError
  when the comment has no actor.
\<close>

definition setDeletedActor :: "comment \<Rightarrow> actor option \<Rightarrow> error + comment" where
  "setDeletedActor c originalActor = (case originalActor of
       None \<Rightarrow> Inl TypeError
     | Some a \<Rightarrow> Inr (c\<lparr>actor := Some \<lparr>actor_ident = actor_ident a, username = ''[deleted]'',
         profile = \<lparr>name = '''', location = '''', bio = '''', color = ''#9bbcd6'',
           picture = ''30_bat.svg''\<rparr>,
         actor_class = None\<rparr>\<rparr>))"

definition canonicalText :: string where
  "canonicalText = ''LOL, did you even preview''"

definition defaultHarassmentComment :: string where
  "defaultHarassmentComment =
     ''LOL, did you even preview this before sharing? No one is interested in this crap. Save your time and ours.''"

text \<open>
  \<^verbatim>\<open>user.condition && (user.condition.startsWith('Obj:AI:') || ...startsWith('Obj:Com:'))\<close>.
  For the empty condition JavaScript yields the (falsy) condition itself; the model keeps
  its truth value.
\<close>

definition isObjectionCondition :: "string \<Rightarrow> bool" where
  "isObjectionCondition c = (c \<noteq> [] \<and> (startsWith c ''Obj:AI:'' \<or> startsWith c ''Obj:Com:''))"

text \<open>Lines 349-358: the index of the harassment comment, by class, else by body.\<close>

definition findHarassmentCommentIndex :: "comment list \<Rightarrow> nat option" where
  "findHarassmentCommentIndex cs =
     (if length cs > 0 then
        (case findIndex (\<lambda>c. class_tag c = ''offense1'') cs of
           Some i \<Rightarrow> Some i
         | None \<Rightarrow> findIndex (\<lambda>c. body c \<noteq> [] \<and> str_includes (body c) canonicalText) cs)
      else None)"

text \<open>Lines 361-378: what is done to the comment that was found.\<close>

definition prepareFoundComment :: "string \<Rightarrow> comment \<Rightarrow> comment" where
  "prepareFoundComment cond foundComment =
     (setHarassmentCommentTime (foundComment\<lparr>class_tag := ''offense1'', likes := 0, unlikes := 0\<rparr>))
       \<lparr>allowInteractions := Some (isObjectionCondition cond)\<rparr>"

text \<open>Lines 395-405: the synthetic harassment comment.\<close>

definition harassmentCommentObj :: "string \<Rightarrow> string \<Rightarrow> actor \<Rightarrow> comment" where
  "harassmentCommentObj harassmentComment cond harassmentActor =
     \<lparr>ident = None, commentID = 999, body = harassmentComment, likes = 0, unlikes = 0,
      actor = Some harassmentActor, time = -6 * 60 * 60 * 1000, class_tag = ''offense1'',
      new_comment = False, liked = False, unliked = False, flagged = False,
      reply_to = None, parent_comment = None,
      removed = False, allowInteractions = Some (isObjectionCondition cond),
      subcomments = []\<rparr>"

text \<open>Lines 382-409: create the harassment comment when none was found.\<close>

definition createHarassmentComment ::
    "string \<Rightarrow> string \<Rightarrow> video \<Rightarrow> db \<Rightarrow> (video \<times> nat option) \<times> db" where
  "createHarassmentComment harassmentComment cond firstVideo d =
     (case Actor_findOne d of (harassmentActor, d') \<Rightarrow>
        (case harassmentActor of
           None \<Rightarrow> ((firstVideo, None), d')
         | Some a \<Rightarrow>
             ((firstVideo\<lparr>comments := comments firstVideo @
                  [harassmentCommentObj harassmentComment cond a]\<rparr>,
               Some (length (comments firstVideo))), d')))"

text \<open>The \<^verbatim>\<open>Control\<close> case of the switch (lines 418-437).\<close>

definition applyControl :: "string \<Rightarrow> nat option \<Rightarrow> video \<Rightarrow> video" where
  "applyControl harassmentComment idx firstVideo =
     (case idx of
        None \<Rightarrow> firstVideo
      | Some i \<Rightarrow>
          (case at_index (comments firstVideo) i of
             None \<Rightarrow> firstVideo
           | Some controlComment \<Rightarrow>
               firstVideo\<lparr>comments := (comments firstVideo)[i :=
                 setHarassmentCommentTime (controlComment\<lparr>body := harassmentComment,
                   class_tag := ''offense1'', removed := False, likes := 0, unlikes := 0,
                   subcomments := [], allowInteractions := Some True\<rparr>)]\<rparr>))"

text \<open>
  The four \<^verbatim>\<open>Rem:*\<close> cases (lines 439-497) differ in the notice and the class only.
  Writing a property of \<^verbatim>\<open>firstVideo.comments[-1]\<close>, or of an element out of range, would
  be a TypeError.
\<close>

definition applyRemoval :: "string \<Rightarrow> string \<Rightarrow> nat option \<Rightarrow> video \<Rightarrow> error + video" where
  "applyRemoval notice cls idx firstVideo =
     (case idx of
        None \<Rightarrow> Inl TypeError
      | Some i \<Rightarrow>
          (case at_index (comments firstVideo) i of
             None \<Rightarrow> Inl TypeError
           | Some c \<Rightarrow>
               (let c' = setHarassmentCommentTime (c\<lparr>body := notice, class_tag := cls,
                           removed := True, likes := 0, unlikes := 0, subcomments := []\<rparr>)
                in case setDeletedActor c' (actor c') of
                     Inl err \<Rightarrow> Inl err
                   | Inr c'' \<Rightarrow>
                       Inr (firstVideo\<lparr>comments := (comments firstVideo)[i := c'']\<rparr>))))"

text \<open>The objection subcomment of the four \<^verbatim>\<open>Obj:*\<close> cases (lines 499-595).\<close>

definition objectionSubcomment :: "env \<Rightarrow> user \<Rightarrow> actor \<Rightarrow> string \<Rightarrow> string \<Rightarrow> subcomment" where
  "objectionSubcomment e u a msg cls =
     \<lparr>ident = Some (objectionId e), commentID = 96, body = msg, likes = 0, unlikes = 0,
      actor = Some (serializeActorForSubcomment a),
      time = (now e - (3 * 60 * 60 * 1000)) - createdAt u,
      class_tag = cls, new_comment = False, liked = False, unliked = False, flagged = False,
      reply_to = None, parent_comment = None\<rparr>"

definition pushObjection :: "subcomment \<Rightarrow> nat \<Rightarrow> video \<Rightarrow> video" where
  "pushObjection s i firstVideo =
     firstVideo\<lparr>comments := (comments firstVideo)[i :=
       (comments firstVideo ! i)\<lparr>subcomments := subcomments (comments firstVideo ! i) @ [s]\<rparr>]\<rparr>"

definition applyObjection ::
    "env \<Rightarrow> user \<Rightarrow> actor option \<Rightarrow> string \<Rightarrow> string \<Rightarrow> nat option \<Rightarrow> video \<Rightarrow> video" where
  "applyObjection e u objectionActor msg cls idx firstVideo =
     (case objectionActor of
        None \<Rightarrow> firstVideo
      | Some a \<Rightarrow>
          (case idx of
             None \<Rightarrow> firstVideo
           | Some i \<Rightarrow> pushObjection (objectionSubcomment e u a msg cls) i firstVideo))"

text \<open>\<^verbatim>\<open>humanObjectionActors.length > 0\<close> and then \<^verbatim>\<open>humanObjectionActors[0]\<close>.\<close>

definition firstActor :: "actor list \<Rightarrow> actor option" where
  "firstActor as = (case as of [] \<Rightarrow> None | a # _ \<Rightarrow> Some a)"

definition removalAiNoRef :: string where
  "removalAiNoRef = ''This comment is removed. Our bot'' @
     [CHR 0xC3, CHR 0xB0, CHR 0xC5, CHR 0xB8, CHR 0xC2, CHR 0xA4, CHR 0xE2, CHR 0x80, CHR 0x93] @
     '' removed the comment for containing harassing language.''"

definition removalAiRef :: string where
  "removalAiRef = ''This comment is removed. Our bot'' @
     [CHR 0xC3, CHR 0xB0, CHR 0xC5, CHR 0xB8, CHR 0xC2, CHR 0xA4, CHR 0xE2, CHR 0x80, CHR 0x93] @
     '' removed this comment for containing harassing language inconsistent with typical community behavior.''"

definition removalComNoRef :: string where
  "removalComNoRef = ''This comment is removed. Our community member'' @
     [CHR 0xC3, CHR 0xB0, CHR 0xC5, CHR 0xB8, CHR 0xE2, CHR 0x84, CHR 0xA2, CHR 0xE2, CHR 0x80, CHR 0xB9] @
     '' removed the comment for containing harassing language.''"

definition removalComRef :: string where
  "removalComRef = ''This comment is removed. Our community member'' @
     [CHR 0xC3, CHR 0xB0, CHR 0xC5, CHR 0xB8, CHR 0xC2, CHR 0xA7, CHR 0xE2, CHR 0x80, CHR 0x98] @
     '' removed this comment for containing harassing language inconsistent with typical community behavior.''"

text \<open>The switch on \<^verbatim>\<open>user.condition\<close> (lines 417-599).\<close>

definition switchCondition ::
    "env \<Rightarrow> user \<Rightarrow> actor option \<Rightarrow> actor list \<Rightarrow> string \<Rightarrow> nat option \<Rightarrow> video
      \<Rightarrow> error + video" where
  "switchCondition e u aiBotActor humanObjectionActors harassmentComment idx firstVideo =
     (let c = condition u in
      if c = ''Control'' then Inr (applyControl harassmentComment idx firstVideo)
      else if c = ''Rem:AI:NoRef'' then
        applyRemoval (env_or (REMOVAL_AI_NO_REF e) removalAiNoRef) ''ai_removal_no_ref''
          idx firstVideo
      else if c = ''Rem:AI:Ref'' then
        applyRemoval (env_or (REMOVAL_AI_REF e) removalAiRef) ''ai_removal_community''
          idx firstVideo
      else if c = ''Rem:Com:NoRef'' then
        applyRemoval (env_or (REMOVAL_COM_NO_REF e) removalComNoRef)
          ''community_removal_no_ref'' idx firstVideo
      else if c = ''Rem:Com:Ref'' then
        applyRemoval (env_or (REMOVAL_COM_REF e) removalComRef)
          ''community_removal_community'' idx firstVideo
      else if c = ''Obj:AI:NoRef'' then
        Inr (applyObjection e u aiBotActor
          (env_or (OBJECTION_AI_NO_REF e)
            ''This comment is offensive toward others. Please remember to stay respectful to each other here.'')
          ''ai_objection_no_ref'' idx firstVideo)
      else if c = ''Obj:AI:Ref'' then
        Inr (applyObjection e u aiBotActor
          (env_or (OBJECTION_AI_REF e)
            ''This comment is offensive toward others. This is not how people typically respond in this community.'')
          ''ai_objection_community'' idx firstVideo)
      else if c = ''Obj:Com:NoRef'' then
        Inr (applyObjection e u (firstActor humanObjectionActors)
          (env_or (OBJECTION_COM_NO_REF e)
            ''Please remember to stay respectful to each other here.'')
          ''human_objection_no_ref'' idx firstVideo)
      else if c = ''Obj:Com:Ref'' then
        Inr (applyObjection e u (firstActor humanObjectionActors)
          (env_or (OBJECTION_COM_REF e)
            ''This comment is offensive toward others. This is not how people typically respond in this community.'')
          ''human_objection_community'' idx firstVideo)
      else Inr firstVideo)"

subsection \<open>The condition manipulator\<close>

text \<open>\<^verbatim>\<open>applyManipulationToFirstVideo(firstVideo, user)\<close> (lines 334-600).\<close>

definition applyManipulationToFirstVideo ::
    "env \<Rightarrow> video \<Rightarrow> user \<Rightarrow> db \<Rightarrow> (error + video) \<times> db" where
  "applyManipulationToFirstVideo e firstVideo u d0 =
     (case Actor_findOne_username ''VidShare Bot'' d0 of (aiBotActor, d1) \<Rightarrow>
      case Actor_find_class_not_username ''objection'' ''VidShare Bot'' d1 of
        (humanObjectionActors, d2) \<Rightarrow>
      let harassmentComment = env_or (HARASSMENT_COMMENT e) defaultHarassmentComment;
          found = findHarassmentCommentIndex (comments firstVideo);
          video1 = (case found of
              None \<Rightarrow> firstVideo
            | Some i \<Rightarrow> firstVideo\<lparr>comments := (comments firstVideo)[i :=
                prepareFoundComment (condition u) (comments firstVideo ! i)]\<rparr>)
      in case (if found = None
               then createHarassmentComment harassmentComment (condition u) video1 d2
               else ((video1, found), d2)) of
           ((video2, harassmentCommentIndex), d3) \<Rightarrow>
             if harassmentCommentIndex = None \<and> condition u \<noteq> ''Control''
             then (Inr video2, d3)
             else (switchCondition e u aiBotActor humanObjectionActors harassmentComment
                     harassmentCommentIndex video2, d3))"

text \<open>\<^verbatim>\<open>applyExperimentalManipulations(script_feed, user)\<close> (lines 315-329).\<close>

definition applyExperimentalManipulations ::
    "env \<Rightarrow> video list \<Rightarrow> user \<Rightarrow> db \<Rightarrow> (error + video list) \<times> db" where
  "applyExperimentalManipulations e script_feed u d =
     (if length script_feed \<noteq> 3 then (Inr script_feed, d)
      else case applyManipulationToFirstVideo e (script_feed ! 0) u d of
        (Inl err, d') \<Rightarrow> (Inl err, d')
      | (Inr v, d') \<Rightarrow> (Inr (script_feed[0 := v]), d'))"

text \<open>The nine condition tags (controllers/user.js, line 74).\<close>

definition conditionMessages :: "string list" where
  "conditionMessages = [''Control'',
     ''Rem:AI:NoRef'', ''Rem:AI:Ref'', ''Rem:Com:NoRef'', ''Rem:Com:Ref'',
     ''Obj:AI:NoRef'', ''Obj:AI:Ref'', ''Obj:Com:NoRef'', ''Obj:Com:Ref'']"

subsection \<open>The action replay\<close>

text \<open>
  The record \<^verbatim>\<open>cat\<close> of a new comment of the user (lines 116-126), as a top-level
  comment and as a reply. Properties the source does not give it are absent; the array of
  subcomments of a pushed element is empty.
\<close>

definition commentCat :: "commentAction \<Rightarrow> comment" where
  "commentCat a =
     \<lparr>ident = None, commentID = new_comment_id a, body = act_body a,
      likes = (if act_liked a then 1 else 0), unlikes = (if act_unliked a then 1 else 0),
      actor = None, time = relativeTime a, class_tag = [],
      new_comment = act_new_comment a, liked = act_liked a, unliked = act_unliked a,
      flagged = False, reply_to = None, parent_comment = None,
      removed = False, allowInteractions = None, subcomments = []\<rparr>"

definition replyCat :: "commentAction \<Rightarrow> subcomment" where
  "replyCat a =
     \<lparr>ident = None, commentID = new_comment_id a, body = act_body a,
      likes = (if act_liked a then 1 else 0), unlikes = (if act_unliked a then 1 else 0),
      actor = None, time = relativeTime a, class_tag = [],
      new_comment = act_new_comment a, liked = act_liked a, unliked = act_unliked a,
      flagged = False, reply_to = act_reply_to a, parent_comment = act_parent_comment a\<rparr>"

text \<open>
  \<^verbatim>\<open>replyDictionary\<close>: an object whose keys are the \<^verbatim>\<open>parent_comment\<close> numbers written as
  strings (\<open>None\<close> is the key \<^verbatim>\<open>"undefined"\<close>), in the order of their first insertion.
\<close>

type_synonym replyDict = "(nat option \<times> subcomment list) list"

definition dictPush :: "nat option \<Rightarrow> subcomment \<Rightarrow> replyDict \<Rightarrow> replyDict" where
  "dictPush k s dict = (case map_of dict k of
       Some rs \<Rightarrow> AList.update k (rs @ [s]) dict
     | None \<Rightarrow> dict @ [(k, [s])])"

text \<open>
  \<^verbatim>\<open>Object.entries\<close>: the keys that are integers first, ascending, then the others in
  insertion order (comment numbers are far below the bound \<open>2^32 - 1\<close> of integer keys).
\<close>

definition entryKey :: "nat option \<times> 'v \<Rightarrow> nat" where
  "entryKey kv = (case fst kv of Some n \<Rightarrow> n | None \<Rightarrow> 0)"

definition Object_entries :: "(nat option \<times> 'v) list \<Rightarrow> (nat option \<times> 'v) list" where
  "Object_entries dict =
     sort_key entryKey (filter (\<lambda>kv. fst kv \<noteq> None) dict) @ filter (\<lambda>kv. fst kv = None) dict"

text \<open>The like, unlike and flag of a log entry, on a comment or a subcomment (lines 146-159).\<close>

definition applyDeltas :: "commentAction \<Rightarrow> 'a subcomment_scheme \<Rightarrow> 'a subcomment_scheme" where
  "applyDeltas a c =
     (let c1 = (if act_liked a then c\<lparr>liked := True, likes := likes c + 1\<rparr> else c);
          c2 = (if act_unliked a then c1\<lparr>unliked := True, unlikes := unlikes c1 + 1\<rparr> else c1)
      in if act_flagged a then c2\<lparr>flagged := True\<rparr> else c2)"

text \<open>The body of the \<^verbatim>\<open>forEach\<close> over the comments (lines 162-181).\<close>

definition replaySubcomments :: "commentAction \<Rightarrow> comment \<Rightarrow> comment" where
  "replaySubcomments a c =
     (case findIndex (\<lambda>x. ident x = act_comment a) (subcomments c) of
        None \<Rightarrow> c
      | Some j \<Rightarrow> c\<lparr>subcomments := (subcomments c)[j := applyDeltas a (subcomments c ! j)]\<rparr>)"

text \<open>The body of the loop over the comment actions of a post (lines 113-184).\<close>

definition processCommentAction ::
    "commentAction \<Rightarrow> comment list \<times> replyDict \<Rightarrow> comment list \<times> replyDict" where
  "processCommentAction a st = (case st of (cs, dict) \<Rightarrow>
     if act_new_comment a then
       (if act_reply_to a \<noteq> None
        then (cs, dictPush (act_parent_comment a) (replyCat a) dict)
        else (cs @ [commentCat a], dict))
     else
       (case findIndex (\<lambda>x. ident x = act_comment a) cs of
          Some i \<Rightarrow> (cs[i := applyDeltas a (cs ! i)], dict)
        | None \<Rightarrow> (map (replaySubcomments a) cs, dict)))"

text \<open>
  The loop over the entries of \<^verbatim>\<open>replyDictionary\<close> (lines 190-197). When no comment has
  the key as its \<^verbatim>\<open>commentID\<close>, \<^verbatim>\<open>commentIndex\<close> is \<^verbatim>\<open>-1\<close> and reading
  \<^verbatim>\<open>comments[-1]["subcomments"]\<close> is a TypeError.
\<close>

fun mergeReplies :: "replyDict \<Rightarrow> comment list \<Rightarrow> error + comment list" where
  "mergeReplies [] cs = Inr cs"
| "mergeReplies ((key, replies) # rest) cs =
     (case findIndex (\<lambda>x. Some (commentID x) = key) cs of
        None \<Rightarrow> Inl TypeError
      | Some i \<Rightarrow> mergeReplies rest
          (cs[i := (cs ! i)\<lparr>subcomments := sortByTimeAsc (subcomments (cs ! i) @ replies)\<rparr>]))"

text \<open>The like, unlike and flag of the post (lines 199-212).\<close>

definition applyPostActions :: "postAction \<Rightarrow> video \<Rightarrow> video" where
  "applyPostActions a v =
     (let v1 = (if post_liked a
                then v\<lparr>props := AList.update ''like'' True (props v),
                       post_likes := post_likes v + 1\<rparr> else v);
          v2 = (if post_unliked a
                then v1\<lparr>props := AList.update ''unlike'' True (props v1),
                        post_unlikes := post_unlikes v1 + 1\<rparr> else v1)
      in if post_flagged a then v2\<lparr>props := AList.update ''flag'' True (props v2)\<rparr> else v2)"

text \<open>The comments and the reply dictionary after the loop over the comment actions.\<close>

definition replayComments :: "postAction \<Rightarrow> video \<Rightarrow> comment list \<times> replyDict" where
  "replayComments a v = fold processCommentAction (post_comments a) (comments v, [])"

text \<open>The body of the \<^verbatim>\<open>while\<close> loop, for the post \<^verbatim>\<open>script_feed[0]\<close> (lines 101-223).\<close>

definition replayVideo :: "user \<Rightarrow> video \<Rightarrow> error + video" where
  "replayVideo u v =
     (case findIndex (\<lambda>x. post x = post_ident v) (feedAction u) of
        None \<Rightarrow> Inr (v\<lparr>comments := sortByTimeDesc (comments v)\<rparr>)
      | Some feedIndex \<Rightarrow>
          (let a = feedAction u ! feedIndex in
           case mergeReplies (Object_entries (snd (replayComments a v)))
                  (sortByTimeDesc (fst (replayComments a v))) of
             Inl err \<Rightarrow> Inl err
           | Inr cs \<Rightarrow> Inr (applyPostActions a (v\<lparr>comments := cs\<rparr>))))"

text \<open>The \<^verbatim>\<open>while\<close> loop (lines 100-224): \<^verbatim>\<open>finalfeed\<close>, or the first error.\<close>

fun replayAll :: "user \<Rightarrow> video list \<Rightarrow> error + video list" where
  "replayAll u [] = Inr []"
| "replayAll u (v # script_feed) =
     (case replayVideo u v of
        Inl err \<Rightarrow> Inl err
      | Inr v' \<Rightarrow>
          (case replayAll u script_feed of
             Inl err \<Rightarrow> Inl err
           | Inr finalfeed \<Rightarrow> Inr (v' # finalfeed)))"

subsection \<open>The feed assembler\<close>

text \<open>The filter of the pass that pins the harassment time again (lines 85-90).\<close>

definition isHarassmentOrRemoval :: "comment \<Rightarrow> bool" where
  "isHarassmentOrRemoval c =
     ((class_tag c = ''offense1'' \<and> body c \<noteq> [] \<and> str_includes (body c) canonicalText) \<or>
      (class_tag c \<noteq> [] \<and> (str_includes (class_tag c) ''removal'' \<or>
         str_includes (class_tag c) ''ai_removal'' \<or>
         str_includes (class_tag c) ''community_removal'')))"

definition pinHarassmentTimes :: "video \<Rightarrow> video" where
  "pinHarassmentTimes v =
     v\<lparr>comments := map (\<lambda>c. if isHarassmentOrRemoval c then setHarassmentCommentTime c else c)
       (comments v)\<rparr>"

text \<open>
  The serialization (lines 231-280). \<^verbatim>\<open>toObject\<close> is a copy with the same properties;
  \<^verbatim>\<open>allowInteractions\<close> is then taken from the first comment of the post with the same
  \<^verbatim>\<open>commentID\<close> or the same \<^verbatim>\<open>id\<close>.
\<close>

definition sameComment :: "comment \<Rightarrow> comment \<Rightarrow> bool" where
  "sameComment c c' =
     (commentID c = commentID c' \<or> (ident c \<noteq> None \<and> ident c' \<noteq> None \<and> ident c = ident c'))"

definition serializeComment :: "comment list \<Rightarrow> comment \<Rightarrow> comment" where
  "serializeComment originals c =
     (case List.find (\<lambda>c'. sameComment c' c) originals of
        None \<Rightarrow> c
      | Some originalComment \<Rightarrow>
          (case allowInteractions originalComment of
             None \<Rightarrow> c
           | Some b \<Rightarrow> c\<lparr>allowInteractions := Some b\<rparr>))"

definition serializePost :: "video \<Rightarrow> video" where
  "serializePost p = p\<lparr>comments := map (serializeComment (comments p)) (comments p)\<rparr>"

text \<open>The final pass (lines 284-294).\<close>

definition finalPin :: "video \<Rightarrow> video" where
  "finalPin p =
     p\<lparr>comments := map (\<lambda>c. if class_tag c = ''offense1'' \<and> body c \<noteq> [] \<and>
           str_includes (body c) canonicalText
         then setHarassmentCommentTime c else c) (comments p)\<rparr>"

text \<open>\<^verbatim>\<open>exports.getFeed\<close> (lines 61-297).\<close>

definition getFeed :: "env \<Rightarrow> user \<Rightarrow> db \<Rightarrow> (error + video list) \<times> db" where
  "getFeed e u d0 =
     (case Script_find (interest u) d0 of (script_feed, d1) \<Rightarrow>
       (case applyExperimentalManipulations e script_feed u d1 of
          (Inl err, d2) \<Rightarrow> (Inl err, d2)
        | (Inr script_feed1, d2) \<Rightarrow>
            (case replayAll u (map pinHarassmentTimes script_feed1) of
               Inl err \<Rightarrow> (Inl err, d2)
             | Inr finalfeed \<Rightarrow>
                 (Inr (map finalPin (map serializePost (sort_key postID finalfeed))), d2))))"

text \<open>\<^verbatim>\<open>exports.getTutorial\<close> (lines 307-310).\<close>

definition getTutorial :: "env \<Rightarrow> user \<Rightarrow> db \<Rightarrow> (error + video list) \<times> db" where
  "getTutorial e u d = getFeed e u d"

subsection \<open>Notions used in the statements\<close>

text \<open>
  The value of \<^verbatim>\<open>harassmentCommentIndex\<close> at line 411, after the search and the creation:
  the index found, else the index of the comment created (when \<^verbatim>\<open>Actor.findOne()\<close> returns
  an actor), else \<^verbatim>\<open>-1\<close>.
\<close>

definition harassmentCommentIndexAfter :: "video \<Rightarrow> db \<Rightarrow> nat option" where
  "harassmentCommentIndexAfter firstVideo d =
     (case findHarassmentCommentIndex (comments firstVideo) of
        Some i \<Rightarrow> Some i
      | None \<Rightarrow> (case actors d of [] \<Rightarrow> None | _ # _ \<Rightarrow> Some (length (comments firstVideo))))"

text \<open>The comments of the first video at line 411, before the switch.\<close>

definition commentsBeforeSwitch :: "env \<Rightarrow> video \<Rightarrow> user \<Rightarrow> db \<Rightarrow> comment list" where
  "commentsBeforeSwitch e firstVideo u d =
     (case findHarassmentCommentIndex (comments firstVideo) of
        Some i \<Rightarrow> (comments firstVideo)[i := prepareFoundComment (condition u) (comments firstVideo ! i)]
      | None \<Rightarrow> (case actors d of [] \<Rightarrow> comments firstVideo
          | a # _ \<Rightarrow> comments firstVideo @
              [harassmentCommentObj (env_or (HARASSMENT_COMMENT e) defaultHarassmentComment)
                 (condition u) a]))"

text \<open>The \<^verbatim>\<open>Rem:*\<close> and the \<^verbatim>\<open>Obj:*\<close> tags among the nine.\<close>

definition removalConditions :: "string list" where
  "removalConditions = [''Rem:AI:NoRef'', ''Rem:AI:Ref'', ''Rem:Com:NoRef'', ''Rem:Com:Ref'']"

definition objectionConditions :: "string list" where
  "objectionConditions = [''Obj:AI:NoRef'', ''Obj:AI:Ref'', ''Obj:Com:NoRef'', ''Obj:Com:Ref'']"

text \<open>
  The actor an objection needs: \<^verbatim>\<open>aiBotActor\<close> for the \<^verbatim>\<open>Obj:AI:*\<close> conditions,
  \<^verbatim>\<open>humanObjectionActors[0]\<close> for the \<^verbatim>\<open>Obj:Com:*\<close> conditions.
\<close>

definition requiredObjectionActor :: "string \<Rightarrow> db \<Rightarrow> actor option" where
  "requiredObjectionActor cond d =
     (if startsWith cond ''Obj:AI:''
      then fst (Actor_findOne_username ''VidShare Bot'' d)
      else firstActor (fst (Actor_find_class_not_username ''objection'' ''VidShare Bot'' d)))"

text \<open>The subcomments of the harassment comment of the script (none for a created one).\<close>

definition existingSubcomments :: "video \<Rightarrow> subcomment list" where
  "existingSubcomments firstVideo =
     (case findHarassmentCommentIndex (comments firstVideo) of
        Some i \<Rightarrow> subcomments (comments firstVideo ! i)
      | None \<Rightarrow> [])"

text \<open>A comment without its subcomments: what the merge of the replies leaves unchanged.\<close>

definition noSubs :: "comment \<Rightarrow> comment" where
  "noSubs c = c\<lparr>subcomments := []\<rparr>"

text \<open>A comment with the given \<^verbatim>\<open>commentID\<close> and \<^verbatim>\<open>id\<close> whose time is the pinned one.\<close>

definition pinnedAs :: "nat \<Rightarrow> string option \<Rightarrow> comment \<Rightarrow> bool" where
  "pinnedAs n x c = (commentID c = n \<and> ident c = x \<and> time c = HARASSMENT_TIME_OFFSET)"



text \<open>
  The new replies of a log entry that are buffered under a key of \<^verbatim>\<open>replyDictionary\<close>, in
  the order of the log (lines 114-135).
\<close>

definition isReplyTo :: "nat option \<Rightarrow> commentAction \<Rightarrow> bool" where
  "isReplyTo key a = (act_new_comment a \<and> act_reply_to a \<noteq> None \<and> act_parent_comment a = key)"

definition bufferedReplies :: "postAction \<Rightarrow> nat option \<Rightarrow> subcomment list" where
  "bufferedReplies a key = map replyCat (filter (isReplyTo key) (post_comments a))"

text \<open>The top-level comments at line 190: replayed and sorted, before the replies are merged.\<close>

definition commentsBeforeMerge :: "postAction \<Rightarrow> video \<Rightarrow> comment list" where
  "commentsBeforeMerge a v = sortByTimeDesc (fst (replayComments a v))"

text \<open>The list under a key of the dictionary, and the dictionaries the replay builds.\<close>

definition lookupList :: "replyDict \<Rightarrow> nat option \<Rightarrow> subcomment list" where
  "lookupList dict key = (case map_of dict key of None \<Rightarrow> [] | Some rs \<Rightarrow> rs)"

definition dictOK :: "replyDict \<Rightarrow> bool" where
  "dictOK dict = (distinct (map fst dict) \<and> list_all (\<lambda>kv. snd kv \<noteq> []) dict)"

subsection \<open>Example data\<close>

text \<open>
  A store with three videos of one interest and three actors, an environment in which one
  hour has passed since the account was created, and a user of that interest.
\<close>

definition ex_profile :: profile where
  "ex_profile = \<lparr>name = ''A'', location = '''', bio = '''', color = ''#a6a488'', picture = ''a.svg''\<rparr>"

definition ex_author :: actor where
  "ex_author = \<lparr>actor_ident = ''a1'', username = ''troll'', profile = ex_profile,
     actor_class = Some ''normal''\<rparr>"

definition ex_bot :: actor where
  "ex_bot = \<lparr>actor_ident = ''a2'', username = ''VidShare Bot'', profile = ex_profile,
     actor_class = Some ''objection''\<rparr>"

definition ex_human :: actor where
  "ex_human = \<lparr>actor_ident = ''a3'', username = ''jane'', profile = ex_profile,
     actor_class = Some ''objection''\<rparr>"

definition ex_comment :: "nat \<Rightarrow> string \<Rightarrow> string \<Rightarrow> string \<Rightarrow> int \<Rightarrow> comment" where
  "ex_comment n i cls b t =
     \<lparr>ident = Some i, commentID = n, body = b, likes = 3, unlikes = 1,
      actor = Some ex_author, time = t, class_tag = cls,
      new_comment = False, liked = False, unliked = False, flagged = False,
      reply_to = None, parent_comment = None,
      removed = False, allowInteractions = None, subcomments = []\<rparr>"

definition ex_video :: "string \<Rightarrow> int \<Rightarrow> comment list \<Rightarrow> video" where
  "ex_video i n cs = \<lparr>post_ident = i, postID = n, post_class = ''Science'',
     post_actor = Some ex_author, comments = cs, post_likes = 10, post_unlikes = 2,
     props = []\<rparr>"

definition ex_video0 :: video where
  "ex_video0 = ex_video ''p1'' 1
     [ex_comment 12 ''c12'' ''normal'' ''Nice video'' (- 3600000),
      ex_comment 13 ''c13'' ''offense1'' defaultHarassmentComment (- 7200000)]"

definition ex_video1 :: video where
  "ex_video1 = ex_video ''p2'' 2 [ex_comment 20 ''c20'' ''normal'' ''Great'' (- 60000)]"

definition ex_video2 :: video where
  "ex_video2 = ex_video ''p3'' 3 []"

definition ex_db :: db where
  "ex_db = \<lparr>scripts = [ex_video0, ex_video1, ex_video2], actors = [ex_author, ex_bot, ex_human]\<rparr>"

definition ex_env :: env where
  "ex_env = \<lparr>now = 4600000, objectionId = ''o96'', HARASSMENT_COMMENT = None,
     REMOVAL_AI_NO_REF = None, REMOVAL_AI_REF = None, REMOVAL_COM_NO_REF = None,
     REMOVAL_COM_REF = None, OBJECTION_AI_NO_REF = None, OBJECTION_AI_REF = None,
     OBJECTION_COM_NO_REF = None, OBJECTION_COM_REF = None\<rparr>"

definition ex_user :: "string \<Rightarrow> postAction list \<Rightarrow> user" where
  "ex_user c lg = \<lparr>interest = ''Science'', condition = c, createdAt = 1000000, feedAction = lg\<rparr>"

text \<open>
  Action logs: a like, unlike and flag of the first post; two replies under the comment 13;
  a reply whose parent is no comment of the second post.
\<close>

definition ex_log_likes :: "postAction list" where
  "ex_log_likes = [\<lparr>post = ''p1'', post_liked = True, post_unliked = True, post_flagged = True,
     post_comments = []\<rparr>]"

definition ex_reply :: "nat \<Rightarrow> int \<Rightarrow> commentAction" where
  "ex_reply p t = \<lparr>act_comment = None, act_new_comment = True, new_comment_id = 0,
     act_body = ''no'', act_liked = False, act_unliked = False, act_flagged = False,
     relativeTime = t, act_reply_to = Some p, act_parent_comment = Some p\<rparr>"

definition ex_log_replies :: "postAction list" where
  "ex_log_replies = [\<lparr>post = ''p1'', post_liked = False, post_unliked = False,
     post_flagged = False, post_comments = [ex_reply 13 9000, ex_reply 13 4000]\<rparr>]"

definition ex_log_dangling :: "postAction list" where
  "ex_log_dangling = [\<lparr>post = ''p2'', post_liked = False, post_unliked = False,
     post_flagged = False, post_comments = [ex_reply 77 9000]\<rparr>]"

text \<open>A first video in which another comment already has the time of six hours before.\<close>

definition ex_video_tie :: video where
  "ex_video_tie = ex_video ''p1'' 1
     [ex_comment 12 ''c12'' ''normal'' ''Nice video'' (- 21600000),
      ex_comment 13 ''c13'' ''offense1'' defaultHarassmentComment (- 7200000)]"


section \<open>Facts\<close>

subsection \<open>Basic facts\<close>

lemma findIndex_Some_less: "findIndex P xs = Some i \<Longrightarrow> i < length xs"
  by (induction xs arbitrary: i) (auto split: if_splits)

subsection \<open>The store is only read\<close>

lemma Actor_findOne_db: "snd (Actor_findOne d) = d"
  by (simp add: Actor_findOne_def)

lemma createHarassmentComment_db: "snd (createHarassmentComment h c v d) = d"
  by (simp add: createHarassmentComment_def Actor_findOne_def split: option.splits list.splits)

lemma applyManipulationToFirstVideo_db: "snd (applyManipulationToFirstVideo e v u d) = d"
  by (simp add: applyManipulationToFirstVideo_def Actor_findOne_username_def
      Actor_find_class_not_username_def Let_def split_def createHarassmentComment_db)

lemma applyExperimentalManipulations_db: "snd (applyExperimentalManipulations e sf u d) = d"
  using applyManipulationToFirstVideo_db[of e "sf ! 0" u d]
  by (auto simp: applyExperimentalManipulations_def split: prod.splits sum.splits)

lemma getFeed_db: "snd (getFeed e u d) = d"
  using applyExperimentalManipulations_db[of e "fst (Script_find (interest u) d)" u d]
  by (auto simp: getFeed_def Script_find_def split: prod.splits sum.splits)

subsection \<open>The manipulator, case by case\<close>
lemma findHarassmentCommentIndex_less:
  "findHarassmentCommentIndex cs = Some i \<Longrightarrow> i < length cs"
  by (auto simp: findHarassmentCommentIndex_def dest: findIndex_Some_less split: if_splits option.splits)

lemma before_at_index:
  "harassmentCommentIndexAfter v d = Some i \<Longrightarrow>
   time (commentsBeforeSwitch e v u d ! i) = HARASSMENT_TIME_OFFSET \<and>
   allowInteractions (commentsBeforeSwitch e v u d ! i) = Some (isObjectionCondition (condition u)) \<and>
   class_tag (commentsBeforeSwitch e v u d ! i) = ''offense1''"
  by (auto simp: harassmentCommentIndexAfter_def commentsBeforeSwitch_def prepareFoundComment_def
      harassmentCommentObj_def setHarassmentCommentTime_def HARASSMENT_TIME_OFFSET_def
      dest: findHarassmentCommentIndex_less split: option.splits list.splits)

lemma applyManipulation_fst:
  "fst (applyManipulationToFirstVideo e v u d) =
     (if harassmentCommentIndexAfter v d = None \<and> condition u \<noteq> ''Control'' then Inr v
      else switchCondition e u
        (List.find (\<lambda>a. username a = ''VidShare Bot'') (actors d))
        (filter (\<lambda>a. actor_class a = Some ''objection'' \<and> username a \<noteq> ''VidShare Bot'') (actors d))
        (env_or (HARASSMENT_COMMENT e) defaultHarassmentComment)
        (harassmentCommentIndexAfter v d)
        (v\<lparr>comments := commentsBeforeSwitch e v u d\<rparr>))"
proof (cases "findHarassmentCommentIndex (comments v)")
  case None
  show ?thesis
  proof (cases "actors d")
    case Nil
    with None show ?thesis
      by (simp add: applyManipulationToFirstVideo_def Actor_findOne_username_def
      Actor_find_class_not_username_def Let_def createHarassmentComment_def
      Actor_findOne_def harassmentCommentIndexAfter_def commentsBeforeSwitch_def)
  next
    case (Cons a as)
    with None show ?thesis
      by (simp add: applyManipulationToFirstVideo_def Actor_findOne_username_def
      Actor_find_class_not_username_def Let_def createHarassmentComment_def
      Actor_findOne_def harassmentCommentIndexAfter_def commentsBeforeSwitch_def)
  qed
next
  case (Some i)
  then show ?thesis
      by (simp add: applyManipulationToFirstVideo_def Actor_findOne_username_def
      Actor_find_class_not_username_def Let_def 
      harassmentCommentIndexAfter_def commentsBeforeSwitch_def)
qed
lemma conditionMessages_cases:
  "c \<in> set conditionMessages \<longleftrightarrow>
     c = ''Control'' \<or> c \<in> set removalConditions \<or> c \<in> set objectionConditions"
  by (auto simp: conditionMessages_def removalConditions_def objectionConditions_def)

lemma removal_startsWith: "c \<in> set removalConditions \<Longrightarrow> startsWith c ''Rem:'' \<and> \<not> startsWith c ''Obj:'' \<and> c \<noteq> ''Control'' \<and> \<not> isObjectionCondition c"
  by (auto simp: removalConditions_def startsWith_def isObjectionCondition_def)

lemma objection_startsWith: "c \<in> set objectionConditions \<Longrightarrow> startsWith c ''Obj:'' \<and> \<not> startsWith c ''Rem:'' \<and> c \<noteq> ''Control'' \<and> isObjectionCondition c"
  by (auto simp: objectionConditions_def startsWith_def isObjectionCondition_def)

lemma control_startsWith: "\<not> startsWith ''Control'' ''Rem:'' \<and> \<not> startsWith ''Control'' ''Obj:'' \<and> \<not> isObjectionCondition ''Control''"
  by (auto simp: startsWith_def isObjectionCondition_def)

lemma switch_Control:
  assumes "condition u = ''Control''"
  shows "switchCondition e u ai hs hc idx w = Inr (applyControl hc idx w)"
  using assms by (simp add: switchCondition_def)

lemma applyRemoval_effect:
  assumes "i < length (comments w)" and "applyRemoval notice cls (Some i) w = Inr v'"
  shows "length (comments v') = length (comments w)"
    and "\<And>j. j \<noteq> i \<Longrightarrow> comments v' ! j = comments w ! j"
    and "map_option username (actor (comments v' ! i)) = Some ''[deleted]''"
    and "subcomments (comments v' ! i) = []"
    and "time (comments v' ! i) = HARASSMENT_TIME_OFFSET"
    and "allowInteractions (comments v' ! i) = allowInteractions (comments w ! i)"
    and "commentID (comments v' ! i) = commentID (comments w ! i)"
    and "ident (comments v' ! i) = ident (comments w ! i)"
  using assms
  by (auto simp: applyRemoval_def at_index_def setDeletedActor_def setHarassmentCommentTime_def
      Let_def split: option.splits)

lemma applyControl_effect:
  assumes "i < length (comments w)" and "v' = applyControl hc (Some i) w"
  shows "length (comments v') = length (comments w)"
    and "\<And>j. j \<noteq> i \<Longrightarrow> comments v' ! j = comments w ! j"
    and "subcomments (comments v' ! i) = []"
    and "time (comments v' ! i) = HARASSMENT_TIME_OFFSET"
    and "allowInteractions (comments v' ! i) = Some True"
    and "commentID (comments v' ! i) = commentID (comments w ! i)"
    and "ident (comments v' ! i) = ident (comments w ! i)"
  using assms
  by (auto simp: applyControl_def at_index_def setHarassmentCommentTime_def)

lemma applyObjection_effect:
  assumes "i < length (comments w)" and "v' = applyObjection e u oa txt cls (Some i) w"
  shows "length (comments v') = length (comments w)"
    and "\<And>j. j \<noteq> i \<Longrightarrow> comments v' ! j = comments w ! j"
    and "subcomments (comments v' ! i) = subcomments (comments w ! i) @
           (case oa of None \<Rightarrow> [] | Some a \<Rightarrow> [objectionSubcomment e u a txt cls])"
    and "time (comments v' ! i) = time (comments w ! i)"
    and "allowInteractions (comments v' ! i) = allowInteractions (comments w ! i)"
    and "commentID (comments v' ! i) = commentID (comments w ! i)"
    and "ident (comments v' ! i) = ident (comments w ! i)"
  using assms
  by (auto simp: applyObjection_def pushObjection_def split: option.splits)

lemma switch_Rem:
  assumes "condition u \<in> set removalConditions" and "i < length (comments w)"
    and "switchCondition e u ai hs hc (Some i) w = Inr v'"
  shows "\<exists>notice cls. applyRemoval notice cls (Some i) w = Inr v'"
  using assms by (auto simp: removalConditions_def switchCondition_def) blast+

lemma switch_Obj:
  assumes "condition u \<in> set objectionConditions"
  shows "\<exists>txt cls. switchCondition e u ai hs hc idx w =
     Inr (applyObjection e u (if startsWith (condition u) ''Obj:AI:'' then ai else firstActor hs) txt cls idx w)"
  using assms by (auto simp: objectionConditions_def switchCondition_def startsWith_def) blast+

lemmas ex_defs = ex_profile_def ex_author_def ex_bot_def ex_human_def ex_comment_def
  ex_video_def ex_video0_def ex_video1_def ex_video2_def ex_db_def ex_env_def ex_user_def

lemma indexAfter_less:
  "harassmentCommentIndexAfter v d = Some i \<Longrightarrow> i < length (commentsBeforeSwitch e v u d)"
  by (auto simp: harassmentCommentIndexAfter_def commentsBeforeSwitch_def
      dest: findHarassmentCommentIndex_less split: option.splits list.splits)

lemmas manip_defs = applyManipulation_fst harassmentCommentIndexAfter_def
  commentsBeforeSwitch_def findHarassmentCommentIndex_def prepareFoundComment_def
  harassmentCommentObj_def switchCondition_def applyControl_def applyRemoval_def
  applyObjection_def pushObjection_def objectionSubcomment_def at_index_def
  setDeletedActor_def setHarassmentCommentTime_def HARASSMENT_TIME_OFFSET_def firstActor_def
  env_or_def isObjectionCondition_def startsWith_def serializeActorForSubcomment_def
  canonicalText_def defaultHarassmentComment_def Let_def

lemma ex_found: "findHarassmentCommentIndex (comments ex_video0) = Some 1"
  by (simp add: ex_defs findHarassmentCommentIndex_def)

lemma ex_indexAfter: "harassmentCommentIndexAfter ex_video0 ex_db = Some 1"
  by (simp add: harassmentCommentIndexAfter_def ex_found)

lemma switch_Obj_Inr:
  assumes "condition u \<in> set objectionConditions"
    and "switchCondition e u ai hs hc idx w = Inr v'"
  shows "\<exists>tx cls. v' = applyObjection e u (if startsWith (condition u) ''Obj:AI:'' then ai else firstActor hs) tx cls idx w"
proof -
  from switch_Obj[OF assms(1), of e ai hs hc idx w] obtain tx cls where
    "switchCondition e u ai hs hc idx w =
       Inr (applyObjection e u (if startsWith (condition u) ''Obj:AI:'' then ai else firstActor hs) tx cls idx w)"
    by (elim exE)
  with assms(2) have "v' = applyObjection e u (if startsWith (condition u) ''Obj:AI:'' then ai else firstActor hs) tx cls idx w"
    by simp
  then show ?thesis by (intro exI)
qed

lemma removal_not_objection: "c \<in> set removalConditions \<Longrightarrow> c \<notin> set objectionConditions"
  by (auto simp: removalConditions_def objectionConditions_def)

lemma control_not_removal: "''Control'' \<notin> set removalConditions"
  by (simp add: removalConditions_def)

lemma before_subcomments:
  "harassmentCommentIndexAfter v d = Some i \<Longrightarrow>
   subcomments (commentsBeforeSwitch e v u d ! i) = existingSubcomments v"
  by (auto simp: harassmentCommentIndexAfter_def commentsBeforeSwitch_def prepareFoundComment_def
      harassmentCommentObj_def setHarassmentCommentTime_def existingSubcomments_def
      dest: findHarassmentCommentIndex_less split: option.splits list.splits)

lemma required_actor_store: "requiredObjectionActor c d = Some a \<Longrightarrow> actors d \<noteq> []"
  by (auto simp: requiredObjectionActor_def Actor_findOne_username_def
      Actor_find_class_not_username_def firstActor_def split: if_splits list.splits)

lemma indexAfter_Some: "actors d \<noteq> [] \<Longrightarrow> \<exists>i. harassmentCommentIndexAfter v d = Some i"
  by (auto simp: harassmentCommentIndexAfter_def split: option.splits list.splits)



lemma findIndex_None_iff: "findIndex P xs = None \<longleftrightarrow> (\<forall>x\<in>set xs. \<not> P x)"
  by (induction xs) auto

lemma str_includes_Nil: "str_includes [] canonicalText = False"
  by (simp add: canonicalText_def)

lemma findHarassmentCommentIndex_None_iff:
  "findHarassmentCommentIndex cs = None \<longleftrightarrow>
     (\<forall>c\<in>set cs. class_tag c \<noteq> ''offense1'' \<and> \<not> str_includes (body c) canonicalText)"
proof -
  have b: "\<And>b. (b \<noteq> [] \<and> str_includes b canonicalText) = str_includes b canonicalText"
    using str_includes_Nil by auto
  have "findHarassmentCommentIndex cs = None \<longleftrightarrow>
          findIndex (\<lambda>c. class_tag c = ''offense1'') cs = None \<and>
          findIndex (\<lambda>c. body c \<noteq> [] \<and> str_includes (body c) canonicalText) cs = None"
    by (cases cs) (auto simp: findHarassmentCommentIndex_def split: option.splits)
  then show ?thesis
    unfolding findIndex_None_iff b by blast
qed

subsection \<open>The replay\<close>

lemma replayVideo_Some:
  assumes "findIndex (\<lambda>x. post x = post_ident v) (feedAction u) = Some k"
  shows "replayVideo u v =
     (case mergeReplies (Object_entries (snd (replayComments (feedAction u ! k) v)))
             (sortByTimeDesc (fst (replayComments (feedAction u ! k) v))) of
        Inl err \<Rightarrow> Inl err
      | Inr cs \<Rightarrow> Inr (applyPostActions (feedAction u ! k) (v\<lparr>comments := cs\<rparr>)))"
  using assms by (simp add: replayVideo_def Let_def)

lemma replayVideo_Some_Inr:
  assumes "findIndex (\<lambda>x. post x = post_ident v) (feedAction u) = Some k"
    and "replayVideo u v = Inr v'"
  shows "\<exists>cs. mergeReplies (Object_entries (snd (replayComments (feedAction u ! k) v)))
             (sortByTimeDesc (fst (replayComments (feedAction u ! k) v))) = Inr cs \<and>
          v' = applyPostActions (feedAction u ! k) (v\<lparr>comments := cs\<rparr>)"
  using assms(2) unfolding replayVideo_Some[OF assms(1)]
  by (auto split: sum.splits)

lemma applyPostActions_comments: "comments (applyPostActions a v) = comments v"
  by (simp add: applyPostActions_def Let_def)

lemma applyPostActions_likes:
  "post_likes (applyPostActions a v) = (if post_liked a then post_likes v + 1 else post_likes v)"
  by (simp add: applyPostActions_def Let_def)

lemma applyPostActions_unlikes:
  "post_unlikes (applyPostActions a v) = (if post_unliked a then post_unlikes v + 1 else post_unlikes v)"
  by (simp add: applyPostActions_def Let_def)

lemma applyPostActions_props:
  "map_of (props (applyPostActions a v)) =
     (\<lambda>k. if k = ''flag'' \<and> post_flagged a then Some True
          else if k = ''unlike'' \<and> post_unliked a then Some True
          else if k = ''like'' \<and> post_liked a then Some True
          else map_of (props v) k)"
  by (auto simp: applyPostActions_def Let_def update_conv' fun_eq_iff)

lemmas replay_defs = replayVideo_def replayComments_def processCommentAction_def
  Object_entries_def entryKey_def dictPush_def applyDeltas_def
  replaySubcomments_def commentCat_def replyCat_def applyPostActions_def sortByTimeDesc_def
  sortByTimeAsc_def

lemma findIndex_Some_nth: "findIndex P xs = Some i \<Longrightarrow> P (xs ! i)"
  by (induction xs arbitrary: i) (auto split: if_splits)

lemma findIndex_cong_map:
  "map f xs = map f ys \<Longrightarrow> findIndex (\<lambda>x. P (f x)) xs = findIndex (\<lambda>x. P (f x)) ys"
proof (induction xs arbitrary: ys)
  case Nil
  then show ?case by simp
next
  case (Cons x xs)
  then obtain y ys' where ys: "ys = y # ys'" by (cases ys) auto
  with Cons.prems have "f x = f y" and "map f xs = map f ys'" by simp_all
  with Cons.IH[of ys'] show ?case by (simp add: ys)
qed

lemma mergeReplies_noSubs:
  "mergeReplies es cs = Inr cs' \<Longrightarrow> map noSubs cs' = map noSubs cs"
proof (induction es arbitrary: cs)
  case Nil
  then show ?case by simp
next
  case (Cons e es)
  obtain key replies where e: "e = (key, replies)" by (cases e)
  from Cons.prems obtain i where
    i: "findIndex (\<lambda>x. Some (commentID x) = key) cs = Some i"
    and rest: "mergeReplies es
      (cs[i := (cs ! i)\<lparr>subcomments := sortByTimeAsc (subcomments (cs ! i) @ replies)\<rparr>]) = Inr cs'"
    by (auto simp: e split: option.splits)
  have "map noSubs (cs[i := (cs ! i)\<lparr>subcomments := sortByTimeAsc (subcomments (cs ! i) @ replies)\<rparr>])
        = map noSubs cs"
    by (simp add: map_update noSubs_def list_update_same_conv findIndex_Some_less[OF i])
  with Cons.IH[OF rest] show ?case by simp
qed

lemma noSubs_fields:
  "time (noSubs c) = time c" "commentID (noSubs c) = commentID c" "ident (noSubs c) = ident c"
  by (simp_all add: noSubs_def)

lemma map_noSubs_field:
  assumes "map noSubs cs' = map noSubs cs"
  shows "map time cs' = map time cs" and "map commentID cs' = map commentID cs"
    and "map ident cs' = map ident cs" and "length cs' = length cs"
proof -
  have "map (time \<circ> noSubs) cs' = map (time \<circ> noSubs) cs"
    using assms by (metis map_map)
  then show "map time cs' = map time cs" by (simp add: comp_def noSubs_fields)
  have "map (commentID \<circ> noSubs) cs' = map (commentID \<circ> noSubs) cs"
    using assms by (metis map_map)
  then show "map commentID cs' = map commentID cs" by (simp add: comp_def noSubs_fields)
  have "map (ident \<circ> noSubs) cs' = map (ident \<circ> noSubs) cs"
    using assms by (metis map_map)
  then show "map ident cs' = map ident cs" by (simp add: comp_def noSubs_fields)
  show "length cs' = length cs" using assms by (metis length_map)
qed

lemma mergeReplies_untouched:
  "mergeReplies es cs = Inr cs' \<Longrightarrow>
   (\<forall>e\<in>set es. findIndex (\<lambda>x. Some (commentID x) = fst e) cs \<noteq> Some j) \<Longrightarrow>
   cs' ! j = cs ! j"
proof (induction es arbitrary: cs)
  case Nil
  then show ?case by simp
next
  case (Cons e es)
  obtain key replies where e: "e = (key, replies)" by (cases e)
  define cs1 where "cs1 = cs[the (findIndex (\<lambda>x. Some (commentID x) = key) cs) :=
      (cs ! the (findIndex (\<lambda>x. Some (commentID x) = key) cs))\<lparr>subcomments :=
         sortByTimeAsc (subcomments (cs ! the (findIndex (\<lambda>x. Some (commentID x) = key) cs)) @ replies)\<rparr>]"
  from Cons.prems(1) obtain i where
    i: "findIndex (\<lambda>x. Some (commentID x) = key) cs = Some i"
    and rest: "mergeReplies es cs1 = Inr cs'"
    by (auto simp: e cs1_def split: option.splits)
  have ij: "i \<noteq> j" using Cons.prems(2) i by (auto simp: e)
  have ids: "map commentID cs1 = map commentID cs"
    by (simp add: cs1_def i map_update list_update_same_conv findIndex_Some_less[OF i])
  have same: "\<And>k. findIndex (\<lambda>x. Some (commentID x) = k) cs1 = findIndex (\<lambda>x. Some (commentID x) = k) cs"
    using findIndex_cong_map[OF ids, of "\<lambda>n. Some n = k" for k] by simp
  have "\<forall>e\<in>set es. findIndex (\<lambda>x. Some (commentID x) = fst e) cs1 \<noteq> Some j"
    using Cons.prems(2) by (simp add: same)
  from Cons.IH[OF rest this] have "cs' ! j = cs1 ! j" .
  also have "cs1 ! j = cs ! j" using ij by (simp add: cs1_def i)
  finally show ?case .
qed

lemma mergeReplies_merged:
  "mergeReplies es cs = Inr cs' \<Longrightarrow> distinct (map fst es) \<Longrightarrow> (key, replies) \<in> set es \<Longrightarrow>
   \<exists>j. findIndex (\<lambda>x. Some (commentID x) = key) cs = Some j \<and>
       subcomments (cs' ! j) = sortByTimeAsc (subcomments (cs ! j) @ replies)"
proof (induction es arbitrary: cs)
  case Nil
  then show ?case by simp
next
  case (Cons e es)
  obtain k rs where e: "e = (k, rs)" by (cases e)
  from Cons.prems(1) obtain i where
    i: "findIndex (\<lambda>x. Some (commentID x) = k) cs = Some i"
    by (auto simp: e split: option.splits)
  define cs1 where "cs1 = cs[i := (cs ! i)\<lparr>subcomments := sortByTimeAsc (subcomments (cs ! i) @ rs)\<rparr>]"
  from Cons.prems(1) have rest: "mergeReplies es cs1 = Inr cs'"
    by (simp add: e i cs1_def)
  have il: "i < length cs" by (rule findIndex_Some_less[OF i])
  have ids: "map commentID cs1 = map commentID cs"
    by (simp add: cs1_def map_update list_update_same_conv il)
  have same: "\<And>k'. findIndex (\<lambda>x. Some (commentID x) = k') cs1 = findIndex (\<lambda>x. Some (commentID x) = k') cs"
    using findIndex_cong_map[OF ids, of "\<lambda>n. Some n = k'" for k'] by simp
  have ki: "Some (commentID (cs ! i)) = k" using findIndex_Some_nth[OF i] .
  have dist: "distinct (map fst es)" and knot: "k \<notin> fst ` set es"
    using Cons.prems(2) by (simp_all add: e)
  show ?case
  proof (cases "(key, replies) = (k, rs)")
    case True
    have "\<forall>e'\<in>set es. findIndex (\<lambda>x. Some (commentID x) = fst e') cs1 \<noteq> Some i"
    proof
      fix e' assume e': "e' \<in> set es"
      show "findIndex (\<lambda>x. Some (commentID x) = fst e') cs1 \<noteq> Some i"
      proof
        assume "findIndex (\<lambda>x. Some (commentID x) = fst e') cs1 = Some i"
        then have "findIndex (\<lambda>x. Some (commentID x) = fst e') cs = Some i" by (simp add: same)
        from findIndex_Some_nth[OF this] ki have "fst e' = k" by simp
        with e' knot show False by auto
      qed
    qed
    from mergeReplies_untouched[OF rest this] have "cs' ! i = cs1 ! i" .
    then have "subcomments (cs' ! i) = sortByTimeAsc (subcomments (cs ! i) @ rs)"
      using il by (simp add: cs1_def)
    with i True show ?thesis by simp
  next
    case False
    with Cons.prems(3) have mem: "(key, replies) \<in> set es" by (auto simp: e)
    from Cons.IH[OF rest dist mem] obtain j where
      j: "findIndex (\<lambda>x. Some (commentID x) = key) cs1 = Some j"
      and sub: "subcomments (cs' ! j) = sortByTimeAsc (subcomments (cs1 ! j) @ replies)"
      by blast
    from j have j': "findIndex (\<lambda>x. Some (commentID x) = key) cs = Some j" by (simp add: same)
    have "key \<noteq> k" using mem knot by force
    with findIndex_Some_nth[OF j'] ki have "j \<noteq> i" by auto
    then have "cs1 ! j = cs ! j" by (simp add: cs1_def)
    with j' sub show ?thesis by simp
  qed
qed

lemma dictPush_distinct:
  "distinct (map fst dict) \<Longrightarrow> distinct (map fst (dictPush k s dict))"
  by (auto simp: dictPush_def distinct_update map_of_eq_None_iff split: option.splits)

lemma processCommentAction_distinct:
  "distinct (map fst (snd st)) \<Longrightarrow> distinct (map fst (snd (processCommentAction a st)))"
  by (cases st) (auto simp: processCommentAction_def dictPush_distinct split: option.splits)

lemma fold_processCommentAction_distinct:
  "distinct (map fst (snd st)) \<Longrightarrow> distinct (map fst (snd (fold processCommentAction as st)))"
  by (induction as arbitrary: st) (simp_all add: processCommentAction_distinct)

lemma replayComments_distinct: "distinct (map fst (snd (replayComments a v)))"
  by (simp add: replayComments_def fold_processCommentAction_distinct)

lemma mset_Object_entries: "mset (Object_entries d) = mset d"
  by (simp add: Object_entries_def)

lemma set_Object_entries: "set (Object_entries d) = set d"
  using mset_Object_entries[of d] by (metis set_mset_mset)

lemma distinct_Object_entries:
  "distinct (map fst (Object_entries d)) = distinct (map fst d)"
proof -
  have "mset (map fst (Object_entries d)) = mset (map fst d)"
    by (simp add: mset_Object_entries)
  then show ?thesis by (rule mset_eq_imp_distinct_iff)
qed

lemma sortByTimeDesc_sorted: "sorted_wrt (\<lambda>a b. time b \<le> time a) (sortByTimeDesc cs)"
proof -
  have "sorted (map (\<lambda>c. - time c) (sortByTimeDesc cs))"
    by (simp add: sortByTimeDesc_def)
  then show ?thesis by (simp add: sorted_map)
qed

lemma sortByTimeAsc_sorted: "sorted (map time (sortByTimeAsc cs))"
  by (simp add: sortByTimeAsc_def)

lemma sorted_wrt_time_cong:
  assumes "map time cs' = map time cs"
    and "sorted_wrt (\<lambda>a b. time b \<le> time a) cs"
  shows "sorted_wrt (\<lambda>a b. time b \<le> time a) cs'"
proof -
  have "sorted_wrt (\<lambda>a b. b \<le> a) (map time cs)" using assms(2) by (simp add: sorted_wrt_map)
  then have "sorted_wrt (\<lambda>a b. b \<le> a) (map time cs')" by (simp add: assms(1))
  then show ?thesis by (simp add: sorted_wrt_map)
qed

subsection \<open>The assembler\<close>

lemma applyExperimentalManipulations_fst:
  "fst (applyExperimentalManipulations e sf u d) =
     (if length sf \<noteq> 3 then Inr sf
      else case fst (applyManipulationToFirstVideo e (sf ! 0) u d) of
             Inl err \<Rightarrow> Inl err
           | Inr v \<Rightarrow> Inr (sf[0 := v]))"
  by (auto simp: applyExperimentalManipulations_def split: prod.splits sum.splits)

lemma getFeed_fst:
  "fst (getFeed e u d) =
     (case fst (applyExperimentalManipulations e (fst (Script_find (interest u) d)) u d) of
        Inl err \<Rightarrow> Inl err
      | Inr sf1 \<Rightarrow>
          (case replayAll u (map pinHarassmentTimes sf1) of
             Inl err \<Rightarrow> Inl err
           | Inr ff \<Rightarrow> Inr (map finalPin (map serializePost (sort_key postID ff)))))"
  by (auto simp: getFeed_def Script_find_def split: prod.splits sum.splits)

lemmas feed_defs = getFeed_fst applyExperimentalManipulations_fst Script_find_def
  pinHarassmentTimes_def isHarassmentOrRemoval_def serializePost_def
  serializeComment_def sameComment_def finalPin_def

subsection \<open>The pinned time through the assembler\<close>

lemma before_found_ids:
  assumes "findHarassmentCommentIndex (comments v) = Some i"
  shows "harassmentCommentIndexAfter v d = Some i"
    and "length (commentsBeforeSwitch e v u d) = length (comments v)"
    and "commentID (commentsBeforeSwitch e v u d ! i) = commentID (comments v ! i)"
    and "ident (commentsBeforeSwitch e v u d ! i) = ident (comments v ! i)"
    and "\<And>j. j \<noteq> i \<Longrightarrow> commentsBeforeSwitch e v u d ! j = comments v ! j"
  using assms findHarassmentCommentIndex_less[OF assms]
  by (simp_all add: harassmentCommentIndexAfter_def commentsBeforeSwitch_def
      prepareFoundComment_def setHarassmentCommentTime_def)

lemma switch_effect:
  assumes "i < length (comments w)"
    and "switchCondition e u ai hs hc (Some i) w = Inr v'"
    and "time (comments w ! i) = HARASSMENT_TIME_OFFSET"
  shows "length (comments v') = length (comments w)"
    and "\<And>j. j \<noteq> i \<Longrightarrow> comments v' ! j = comments w ! j"
    and "time (comments v' ! i) = HARASSMENT_TIME_OFFSET"
    and "commentID (comments v' ! i) = commentID (comments w ! i)"
    and "ident (comments v' ! i) = ident (comments w ! i)"
    and "v' = w\<lparr>comments := comments v'\<rparr>"
proof -
  consider (ctl) "condition u = ''Control''"
    | (rem) "condition u \<in> set removalConditions"
    | (obj) "condition u \<in> set objectionConditions"
    | (other) "condition u \<notin> set conditionMessages"
    unfolding conditionMessages_cases by blast
  then have "length (comments v') = length (comments w) \<and>
    (\<forall>j. j \<noteq> i \<longrightarrow> comments v' ! j = comments w ! j) \<and>
    time (comments v' ! i) = HARASSMENT_TIME_OFFSET \<and>
    commentID (comments v' ! i) = commentID (comments w ! i) \<and>
    ident (comments v' ! i) = ident (comments w ! i) \<and>
    v' = w\<lparr>comments := comments v'\<rparr>"
  proof cases
    case ctl
    from assms(2) have v': "v' = applyControl hc (Some i) w"
      by (simp add: switch_Control[OF ctl])
    have "v' = w\<lparr>comments := comments v'\<rparr>"
      using assms(1) by (simp add: v' applyControl_def at_index_def)
    with applyControl_effect(1,2,4,6,7)[OF assms(1) v'] show ?thesis by simp
  next
    case rem
    from switch_Rem[OF rem assms(1,2)] obtain notice cls
      where ar: "applyRemoval notice cls (Some i) w = Inr v'" by (elim exE)
    have "v' = w\<lparr>comments := comments v'\<rparr>"
      using assms(1) ar
      by (auto simp: applyRemoval_def at_index_def Let_def split: sum.splits)
    with applyRemoval_effect(1,2,5,7,8)[OF assms(1) ar] show ?thesis by simp
  next
    case obj
    from switch_Obj_Inr[OF obj assms(2)] obtain tx cls oa where
      v': "v' = applyObjection e u oa tx cls (Some i) w"
      by (elim exE)
    have "v' = w\<lparr>comments := comments v'\<rparr>"
      by (simp add: v' applyObjection_def pushObjection_def split: option.splits)
    with applyObjection_effect(1,2,4,6,7)[OF assms(1) v'] assms(3) show ?thesis by simp
  next
    case other
    then have "switchCondition e u ai hs hc (Some i) w = Inr w"
      by (simp add: switchCondition_def conditionMessages_def)
    with assms(2,3) show ?thesis by simp
  qed
  then show "length (comments v') = length (comments w)"
    and "\<And>j. j \<noteq> i \<Longrightarrow> comments v' ! j = comments w ! j"
    and "time (comments v' ! i) = HARASSMENT_TIME_OFFSET"
    and "commentID (comments v' ! i) = commentID (comments w ! i)"
    and "ident (comments v' ! i) = ident (comments w ! i)"
    and "v' = w\<lparr>comments := comments v'\<rparr>"
    by simp_all
qed

lemma manipulation_found_effect:
  assumes "findHarassmentCommentIndex (comments v) = Some i"
    and "fst (applyManipulationToFirstVideo e v u d) = Inr m"
  shows "length (comments m) = length (comments v)"
    and "\<And>j. j \<noteq> i \<Longrightarrow> comments m ! j = comments v ! j"
    and "time (comments m ! i) = HARASSMENT_TIME_OFFSET"
    and "commentID (comments m ! i) = commentID (comments v ! i)"
    and "ident (comments m ! i) = ident (comments v ! i)"
    and "m = v\<lparr>comments := comments m\<rparr>"
proof -
  define w where "w = v\<lparr>comments := commentsBeforeSwitch e v u d\<rparr>"
  note ids = before_found_ids[OF assms(1)]
  have len: "i < length (comments w)"
    using findHarassmentCommentIndex_less[OF assms(1)] ids(2) by (simp add: w_def)
  have tm: "time (comments w ! i) = HARASSMENT_TIME_OFFSET"
    using before_at_index[OF ids(1), where d = d and e = e and u = u] by (simp add: w_def)
  have sw: "switchCondition e u
        (List.find (\<lambda>a. username a = ''VidShare Bot'') (actors d))
        (filter (\<lambda>a. actor_class a = Some ''objection'' \<and> username a \<noteq> ''VidShare Bot'') (actors d))
        (env_or (HARASSMENT_COMMENT e) defaultHarassmentComment) (Some i) w = Inr m"
    using assms(2) unfolding applyManipulation_fst w_def by (simp add: ids(1))
  note eff = switch_effect[OF len sw tm]
  show "length (comments m) = length (comments v)" using eff(1) ids(2) by (simp add: w_def)
  show "\<And>j. j \<noteq> i \<Longrightarrow> comments m ! j = comments v ! j"
    using eff(2) ids(5) by (simp add: w_def)
  show "time (comments m ! i) = HARASSMENT_TIME_OFFSET" by (rule eff(3))
  show "commentID (comments m ! i) = commentID (comments v ! i)"
    using eff(4) ids(3) by (simp add: w_def)
  show "ident (comments m ! i) = ident (comments v ! i)"
    using eff(5) ids(4) by (simp add: w_def)
  show "m = v\<lparr>comments := comments m\<rparr>"
    using eff(6) by (simp add: w_def)
qed

lemma filter_single:
  assumes "i < length xs" and "P (xs ! i)" and "\<forall>j<length xs. j \<noteq> i \<longrightarrow> \<not> P (xs ! j)"
  shows "length (filter P xs) = 1"
proof -
  have xs: "xs = take i xs @ xs ! i # drop (Suc i) xs"
    using assms(1) by (rule id_take_nth_drop)
  have a: "filter P (take i xs) = []"
    using assms(1,3) by (auto simp: filter_empty_conv in_set_conv_nth)
  have b: "filter P (drop (Suc i) xs) = []"
    using assms(1,3) by (auto simp: filter_empty_conv in_set_conv_nth)
  have "filter P xs = filter P (take i xs @ xs ! i # drop (Suc i) xs)"
    using xs by simp
  also have "\<dots> = [xs ! i]" using a b assms(2) by simp
  finally show ?thesis by simp
qed

lemma list_ex_map_preserve:
  assumes "\<And>c. P c \<Longrightarrow> P (f c)" and "list_ex P cs"
  shows "list_ex P (map f cs)"
  using assms by (auto simp: list_ex_iff)

lemma list_ex_update_preserve:
  assumes "\<And>c. P c \<Longrightarrow> P (f c)" and "list_ex P cs"
  shows "list_ex P (cs[i := f (cs ! i)])"
proof -
  from assms(2) obtain j where j: "j < length cs" and pj: "P (cs ! j)"
    by (auto simp: list_ex_iff in_set_conv_nth)
  have "P (cs[i := f (cs ! i)] ! j)"
    using j pj assms(1) by (cases "i = j") simp_all
  moreover have "j < length (cs[i := f (cs ! i)])" using j by simp
  ultimately have "cs[i := f (cs ! i)] ! j \<in> set (cs[i := f (cs ! i)])"
    by (simp only: nth_mem)
  then show ?thesis
    unfolding list_ex_iff using \<open>P (cs[i := f (cs ! i)] ! j)\<close> by (rule rev_bexI)
qed

lemma list_ex_set_mono: "set xs \<subseteq> set ys \<Longrightarrow> list_ex P xs \<Longrightarrow> list_ex P ys"
  by (auto simp: list_ex_iff)

lemma pinnedAs_applyDeltas: "pinnedAs n x c \<Longrightarrow> pinnedAs n x (applyDeltas a c)"
  by (simp add: pinnedAs_def applyDeltas_def Let_def)

lemma pinnedAs_replaySubcomments: "pinnedAs n x c \<Longrightarrow> pinnedAs n x (replaySubcomments a c)"
  by (simp add: pinnedAs_def replaySubcomments_def split: option.splits)

lemma pinnedAs_serializeComment: "pinnedAs n x c \<Longrightarrow> pinnedAs n x (serializeComment os c)"
  by (simp add: pinnedAs_def serializeComment_def split: option.splits)

lemma pinnedAs_setTime_if:
  "pinnedAs n x c \<Longrightarrow> pinnedAs n x (if b then setHarassmentCommentTime c else c)"
  by (simp add: pinnedAs_def setHarassmentCommentTime_def)

lemma pinnedAs_noSubs: "pinnedAs n x (noSubs c) = pinnedAs n x c"
  by (simp add: pinnedAs_def noSubs_def)

lemma processCommentAction_pinned:
  "list_ex (pinnedAs n x) (fst st) \<Longrightarrow> list_ex (pinnedAs n x) (fst (processCommentAction a st))"
proof (cases st)
  case (Pair cs dict)
  assume "list_ex (pinnedAs n x) (fst st)"
  then have ex: "list_ex (pinnedAs n x) cs" by (simp add: Pair)
  show ?thesis
    using ex list_ex_update_preserve[of "pinnedAs n x" "applyDeltas a" cs, OF pinnedAs_applyDeltas ex]
      list_ex_map_preserve[of "pinnedAs n x" "replaySubcomments a" cs, OF pinnedAs_replaySubcomments ex]
    by (simp add: Pair processCommentAction_def split: option.splits)
qed

lemma fold_processCommentAction_pinned:
  "list_ex (pinnedAs n x) (fst st) \<Longrightarrow>
   list_ex (pinnedAs n x) (fst (fold processCommentAction as st))"
  by (induction as arbitrary: st) (simp_all add: processCommentAction_pinned)

lemma mergeReplies_pinned:
  assumes "mergeReplies es cs = Inr cs'" and "list_ex (pinnedAs n x) cs"
  shows "list_ex (pinnedAs n x) cs'"
proof -
  have "list_ex (pinnedAs n x) (map noSubs cs)"
    using assms(2) by (auto simp: list_ex_iff pinnedAs_noSubs)
  then have "list_ex (pinnedAs n x) (map noSubs cs')"
    by (simp add: mergeReplies_noSubs[OF assms(1)])
  then show ?thesis by (auto simp: list_ex_iff pinnedAs_noSubs)
qed

lemma sortByTimeDesc_pinned:
  "list_ex (pinnedAs n x) cs \<Longrightarrow> list_ex (pinnedAs n x) (sortByTimeDesc cs)"
  by (simp add: list_ex_iff sortByTimeDesc_def)

lemma replayVideo_pinned:
  assumes "replayVideo u v = Inr r" and "list_ex (pinnedAs n x) (comments v)"
  shows "list_ex (pinnedAs n x) (comments r)" and "post_ident r = post_ident v"
proof -
  have "list_ex (pinnedAs n x) (comments r) \<and> post_ident r = post_ident v"
  proof (cases "findIndex (\<lambda>x. post x = post_ident v) (feedAction u)")
    case None
    with assms(1) have "r = v\<lparr>comments := sortByTimeDesc (comments v)\<rparr>"
      by (simp add: replayVideo_def)
    then show ?thesis using sortByTimeDesc_pinned[OF assms(2)] by simp
  next
    case (Some k)
    from replayVideo_Some_Inr[OF Some assms(1)] obtain cs where
      mr: "mergeReplies (Object_entries (snd (replayComments (feedAction u ! k) v)))
             (sortByTimeDesc (fst (replayComments (feedAction u ! k) v))) = Inr cs"
      and r: "r = applyPostActions (feedAction u ! k) (v\<lparr>comments := cs\<rparr>)"
      by (elim exE conjE)
    have "list_ex (pinnedAs n x) (fst (replayComments (feedAction u ! k) v))"
      unfolding replayComments_def
      by (rule fold_processCommentAction_pinned) (simp add: assms(2))
    from mergeReplies_pinned[OF mr sortByTimeDesc_pinned[OF this]]
    have "list_ex (pinnedAs n x) cs" .
    moreover have "post_ident r = post_ident v"
      by (simp add: r applyPostActions_def Let_def)
    ultimately show ?thesis by (simp add: r applyPostActions_comments)
  qed
  then show "list_ex (pinnedAs n x) (comments r)" and "post_ident r = post_ident v"
    by simp_all
qed

lemma pinHarassmentTimes_pinned:
  "list_ex (pinnedAs n x) (comments v) \<Longrightarrow> list_ex (pinnedAs n x) (comments (pinHarassmentTimes v))"
  unfolding pinHarassmentTimes_def
  using list_ex_map_preserve[where P = "pinnedAs n x"
      and f = "\<lambda>c. if isHarassmentOrRemoval c then setHarassmentCommentTime c else c"
      and cs = "comments v"] pinnedAs_setTime_if[of n x]
  by simp

lemma pinHarassmentTimes_ident: "post_ident (pinHarassmentTimes v) = post_ident v"
  by (simp add: pinHarassmentTimes_def)

lemma serializePost_pinned:
  "list_ex (pinnedAs n x) (comments v) \<Longrightarrow> list_ex (pinnedAs n x) (comments (serializePost v))"
  unfolding serializePost_def
  using list_ex_map_preserve[where P = "pinnedAs n x"
      and f = "serializeComment (comments v)" and cs = "comments v"]
    pinnedAs_serializeComment[of n x]
  by simp

lemma finalPin_pinned:
  "list_ex (pinnedAs n x) (comments v) \<Longrightarrow> list_ex (pinnedAs n x) (comments (finalPin v))"
  unfolding finalPin_def
  using list_ex_map_preserve[where P = "pinnedAs n x"
      and f = "\<lambda>c. if class_tag c = ''offense1'' \<and> body c \<noteq> [] \<and>
           str_includes (body c) canonicalText
         then setHarassmentCommentTime c else c"
      and cs = "comments v"] pinnedAs_setTime_if[of n x]
  by simp

lemma final_ident: "post_ident (finalPin (serializePost v)) = post_ident v"
  by (simp add: finalPin_def serializePost_def)

lemma replayAll_Cons_Inr:
  assumes "replayAll u (v # vs) = Inr ff"
  shows "\<exists>r rs. replayVideo u v = Inr r \<and> replayAll u vs = Inr rs \<and> ff = r # rs"
  using assms by (auto split: sum.splits)

lemma getFeed_Inr:
  assumes "fst (getFeed e u d) = Inr feed"
  shows "\<exists>sf1 ff. fst (applyExperimentalManipulations e (fst (Script_find (interest u) d)) u d) = Inr sf1 \<and>
           replayAll u (map pinHarassmentTimes sf1) = Inr ff \<and>
           feed = map finalPin (map serializePost (sort_key postID ff))"
  using assms unfolding getFeed_fst by (auto split: sum.splits)

lemma applyExperimentalManipulations_three:
  assumes "fst (applyExperimentalManipulations e [v0, v1, v2] u d) = Inr sf1"
  shows "\<exists>m. fst (applyManipulationToFirstVideo e v0 u d) = Inr m \<and> sf1 = [m, v1, v2]"
  using assms unfolding applyExperimentalManipulations_fst by (auto split: sum.splits)

lemma HARASSMENT_TIME_OFFSET_value: "HARASSMENT_TIME_OFFSET = - 21600000"
  by (simp add: HARASSMENT_TIME_OFFSET_def)

subsection \<open>The post-level overlay\<close>













subsection \<open>The reply dictionary and the log\<close>

lemma dictPush_map_of:
  "map_of (dictPush k s dict) = (map_of dict)(k \<mapsto> lookupList dict k @ [s])"
  by (auto simp: dictPush_def lookupList_def update_conv' fun_eq_iff map_add_def
      split: option.splits)

lemma dictPush_lookupList:
  "lookupList (dictPush k s dict) key =
     (if key = k then lookupList dict k @ [s] else lookupList dict key)"
  by (simp add: lookupList_def dictPush_map_of)

lemma set_update_subset: "set (AList.update k v al) \<subseteq> insert (k, v) (set al)"
  by (induction al) auto

lemma dictPush_OK: "dictOK dict \<Longrightarrow> dictOK (dictPush k s dict)"
proof -
  assume ok: "dictOK dict"
  then have d: "distinct (map fst (dictPush k s dict))"
    by (simp add: dictOK_def dictPush_distinct)
  have "list_all (\<lambda>kv. snd kv \<noteq> []) (dictPush k s dict)"
  proof (cases "map_of dict k")
    case None
    with ok show ?thesis by (simp add: dictPush_def dictOK_def)
  next
    case (Some rs)
    have "set (AList.update k (rs @ [s]) dict) \<subseteq> insert (k, rs @ [s]) (set dict)"
      by (rule set_update_subset)
    with ok show ?thesis
      unfolding dictPush_def Some dictOK_def list_all_iff by auto
  qed
  with d show ?thesis by (simp add: dictOK_def)
qed

lemma processCommentAction_dict:
  "snd (processCommentAction a st) =
     (if act_new_comment a \<and> act_reply_to a \<noteq> None
      then dictPush (act_parent_comment a) (replyCat a) (snd st) else snd st)"
  by (cases st) (simp add: processCommentAction_def split: option.splits)

lemma fold_processCommentAction_lookup:
  "lookupList (snd (fold processCommentAction as st)) key =
     lookupList (snd st) key @ map replyCat (filter (isReplyTo key) as)"
proof (induction as arbitrary: st)
  case Nil
  then show ?case by simp
next
  case (Cons a as)
  show ?case
    by (simp add: Cons.IH processCommentAction_dict dictPush_lookupList isReplyTo_def)
qed

lemma fold_processCommentAction_OK:
  "dictOK (snd st) \<Longrightarrow> dictOK (snd (fold processCommentAction as st))"
  by (induction as arbitrary: st) (simp_all add: processCommentAction_dict dictPush_OK)

lemma replayComments_lookup:
  "lookupList (snd (replayComments a v)) key = bufferedReplies a key"
  unfolding replayComments_def bufferedReplies_def fold_processCommentAction_lookup
  by (simp add: lookupList_def)

lemma replayComments_OK: "dictOK (snd (replayComments a v))"
  unfolding replayComments_def
  by (rule fold_processCommentAction_OK) (simp add: dictOK_def)

lemma buffered_in_dict:
  assumes "bufferedReplies a key \<noteq> []"
  shows "(key, bufferedReplies a key) \<in> set (snd (replayComments a v))"
proof -
  have "lookupList (snd (replayComments a v)) key = bufferedReplies a key"
    by (rule replayComments_lookup)
  with assms have "map_of (snd (replayComments a v)) key = Some (bufferedReplies a key)"
    by (auto simp: lookupList_def split: option.splits)
  then show ?thesis by (rule map_of_SomeD)
qed

lemma dict_is_buffered:
  assumes "(key, replies) \<in> set (snd (replayComments a v))"
  shows "replies = bufferedReplies a key \<and> replies \<noteq> []"
proof -
  from replayComments_OK[of a v] have d: "distinct (map fst (snd (replayComments a v)))"
    and ne: "list_all (\<lambda>kv. snd kv \<noteq> []) (snd (replayComments a v))"
    by (simp_all add: dictOK_def)
  from d assms have "map_of (snd (replayComments a v)) key = Some replies" by simp
  then have "lookupList (snd (replayComments a v)) key = replies"
    by (simp add: lookupList_def)
  then have "replies = bufferedReplies a key" by (simp add: replayComments_lookup)
  moreover from ne assms have "replies \<noteq> []" by (auto simp: list_all_iff)
  ultimately show ?thesis by simp
qed

section \<open>The claims\<close>

text \<open>
  Claim C1, as amended. For every condition (so for each of the nine tags), the manipulator
  applied to a first video in which it finds the harassment comment sets the time of that
  comment to \<open>-21600000\<close> and leaves the time of every other comment as it was; it is
  then the only comment with that time provided no other comment of the video had that time
  already. The pinned time survives the replay and the serialization: whenever the assembler
  returns a feed for a store of three videos, the post of the first video in the feed has
  that comment (same \<^verbatim>\<open>commentID\<close> and \<^verbatim>\<open>id\<close>) with the time \<open>-21600000\<close>.
\<close>

theorem C1_harassment_time_pinned:
  assumes "findHarassmentCommentIndex (comments v0) = Some i"
  shows "HARASSMENT_TIME_OFFSET = - 21600000 \<and>
    (\<forall>m. fst (applyManipulationToFirstVideo e v0 u d) = Inr m \<longrightarrow>
       length (comments m) = length (comments v0) \<and>
       time (comments m ! i) = HARASSMENT_TIME_OFFSET \<and>
       (\<forall>j<length (comments v0). j \<noteq> i \<longrightarrow> time (comments m ! j) = time (comments v0 ! j)) \<and>
       ((\<forall>j<length (comments v0). j \<noteq> i \<longrightarrow> time (comments v0 ! j) \<noteq> HARASSMENT_TIME_OFFSET) \<longrightarrow>
          length (filter (\<lambda>c. time c = HARASSMENT_TIME_OFFSET) (comments m)) = 1)) \<and>
    (\<forall>v1 v2 feed.
       fst (Script_find (interest u) d) = [v0, v1, v2] \<longrightarrow>
       fst (getFeed e u d) = Inr feed \<longrightarrow>
       list_ex (\<lambda>p. post_ident p = post_ident v0 \<and>
          list_ex (pinnedAs (commentID (comments v0 ! i)) (ident (comments v0 ! i))) (comments p))
         feed)"
proof (intro conjI allI impI)
  show "HARASSMENT_TIME_OFFSET = - 21600000" by (rule HARASSMENT_TIME_OFFSET_value)
next
  fix m assume m: "fst (applyManipulationToFirstVideo e v0 u d) = Inr m"
  note eff = manipulation_found_effect[OF assms m]
  show "length (comments m) = length (comments v0)" by (rule eff(1))
  show "time (comments m ! i) = HARASSMENT_TIME_OFFSET" by (rule eff(3))
  show "time (comments m ! j) = time (comments v0 ! j)" if "j < length (comments v0)" "j \<noteq> i" for j
    using eff(2)[OF that(2)] by simp
  show "length (filter (\<lambda>c. time c = HARASSMENT_TIME_OFFSET) (comments m)) = 1"
    if others: "\<forall>j<length (comments v0). j \<noteq> i \<longrightarrow> time (comments v0 ! j) \<noteq> HARASSMENT_TIME_OFFSET"
  proof (rule filter_single[where i = i])
    show "i < length (comments m)"
      using findHarassmentCommentIndex_less[OF assms] eff(1) by simp
    show "time (comments m ! i) = HARASSMENT_TIME_OFFSET" by (rule eff(3))
    show "\<forall>j<length (comments m). j \<noteq> i \<longrightarrow> time (comments m ! j) \<noteq> HARASSMENT_TIME_OFFSET"
      using others eff(1) eff(2) by simp
  qed
next
  fix v1 v2 feed
  assume sf: "fst (Script_find (interest u) d) = [v0, v1, v2]"
    and gf: "fst (getFeed e u d) = Inr feed"
  define n where "n = commentID (comments v0 ! i)"
  define x where "x = ident (comments v0 ! i)"
  from getFeed_Inr[OF gf] obtain sf1 ff where
    am: "fst (applyExperimentalManipulations e [v0, v1, v2] u d) = Inr sf1"
    and ra: "replayAll u (map pinHarassmentTimes sf1) = Inr ff"
    and feed: "feed = map finalPin (map serializePost (sort_key postID ff))"
    unfolding sf by (elim exE conjE)
  from applyExperimentalManipulations_three[OF am] obtain m where
    m: "fst (applyManipulationToFirstVideo e v0 u d) = Inr m" and sf1: "sf1 = [m, v1, v2]"
    by (elim exE conjE)
  note eff = manipulation_found_effect[OF assms m]
  have il: "i < length (comments m)"
    using findHarassmentCommentIndex_less[OF assms] eff(1) by simp
  have "pinnedAs n x (comments m ! i)"
    by (simp add: pinnedAs_def n_def x_def eff(3,4,5))
  with il have pm: "list_ex (pinnedAs n x) (comments m)"
    unfolding list_ex_iff using nth_mem by blast
  have idm: "post_ident m = post_ident v0"
    using eff(6) by (metis video.select_convs(1) video.surjective video.update_convs(5))
  from ra obtain r rs where
    rv: "replayVideo u (pinHarassmentTimes m) = Inr r" and ff: "ff = r # rs"
    unfolding sf1 using replayAll_Cons_Inr[of u "pinHarassmentTimes m" "map pinHarassmentTimes [v1, v2]" ff]
    by auto
  note rp = replayVideo_pinned[OF rv pinHarassmentTimes_pinned[OF pm]]
  define p where "p = finalPin (serializePost r)"
  have "set (sort_key postID ff) = set ff" by (rule set_sort)
  then have "r \<in> set (sort_key postID ff)" by (simp add: ff del: sort_key_simps)
  then have pin: "p \<in> set feed" by (simp add: feed p_def)
  have "list_ex (pinnedAs n x) (comments p)"
    unfolding p_def by (intro finalPin_pinned serializePost_pinned rp(1))
  moreover have "post_ident p = post_ident v0"
    by (simp add: p_def final_ident rp(2) pinHarassmentTimes_ident idm)
  ultimately show "list_ex (\<lambda>p. post_ident p = post_ident v0 \<and>
          list_ex (pinnedAs (commentID (comments v0 ! i)) (ident (comments v0 ! i))) (comments p))
         feed"
    unfolding list_ex_iff n_def x_def using pin by (intro bexI[of _ p]) simp_all
qed

theorem C1_harassment_time_pinned_witness:
  "findHarassmentCommentIndex (comments ex_video0) = Some 1 \<and>
   fst (Script_find (interest (ex_user ''Rem:Com:NoRef'' ex_log_replies)) ex_db) =
     [ex_video0, ex_video1, ex_video2] \<and>
   (\<exists>m. fst (applyManipulationToFirstVideo ex_env ex_video0
             (ex_user ''Rem:Com:NoRef'' ex_log_replies) ex_db) = Inr m \<and>
        time (comments m ! 1) = - 21600000 \<and>
        length (filter (\<lambda>c. time c = HARASSMENT_TIME_OFFSET) (comments m)) = 1) \<and>
   (\<exists>feed. fst (getFeed ex_env (ex_user ''Rem:Com:NoRef'' ex_log_replies) ex_db) = Inr feed \<and>
        list_ex (\<lambda>p. post_ident p = ''p1'' \<and>
          list_ex (pinnedAs 13 (Some ''c13'')) (comments p)) feed)"
proof -
  let ?u = "ex_user ''Rem:Com:NoRef'' ex_log_replies"
  have sf: "fst (Script_find (interest ?u) ex_db) = [ex_video0, ex_video1, ex_video2]"
    by (simp add: Script_find_def ex_defs)
  obtain m where m: "fst (applyManipulationToFirstVideo ex_env ex_video0 ?u ex_db) = Inr m"
    by (simp add: manip_defs ex_defs)
  have "\<exists>feed. fst (getFeed ex_env ?u ex_db) = Inr feed"
    by (simp add: feed_defs manip_defs replay_defs ex_defs ex_log_replies_def ex_reply_def)
  then obtain feed where gf: "fst (getFeed ex_env ?u ex_db) = Inr feed" by (elim exE)
  have others: "\<forall>j<length (comments ex_video0). j \<noteq> 1 \<longrightarrow>
      time (comments ex_video0 ! j) \<noteq> HARASSMENT_TIME_OFFSET"
    by (auto simp: ex_defs HARASSMENT_TIME_OFFSET_def less_Suc_eq numeral_2_eq_2)
  have ids: "commentID (comments ex_video0 ! 1) = 13" "ident (comments ex_video0 ! 1) = Some ''c13''"
    "post_ident ex_video0 = ''p1''"
    by (simp_all add: ex_defs)
  note c1 = C1_harassment_time_pinned[OF ex_found, of ex_env ?u ex_db]
  from c1 m others have a: "time (comments m ! 1) = - 21600000 \<and>
        length (filter (\<lambda>c. time c = HARASSMENT_TIME_OFFSET) (comments m)) = 1"
    by auto
  from c1 sf gf have b: "list_ex (\<lambda>p. post_ident p = ''p1'' \<and>
          list_ex (pinnedAs 13 (Some ''c13'')) (comments p)) feed"
    unfolding ids by blast
  from ex_found sf m a gf b show ?thesis by (auto intro!: exI[of _ m] exI[of _ feed])
qed

text \<open>
  The claim as stated fails: when another comment of the first video has the time
  \<open>-21600000\<close> in the script, two comments have that time after the manipulation.
\<close>

theorem C1_exactly_one_counterexample:
  "findHarassmentCommentIndex (comments ex_video_tie) = Some 1 \<and>
   \<not> isl (fst (applyManipulationToFirstVideo ex_env ex_video_tie (ex_user ''Control'' []) ex_db)) \<and>
   map commentID (comments (projr (fst (applyManipulationToFirstVideo ex_env ex_video_tie
       (ex_user ''Control'' []) ex_db)))) = [12, 13] \<and>
   map time (comments (projr (fst (applyManipulationToFirstVideo ex_env ex_video_tie
       (ex_user ''Control'' []) ex_db)))) = [- 21600000, - 21600000]"
  by (simp add: manip_defs ex_defs ex_video_tie_def)

text \<open>
  Claim C2, as amended. For every \<^verbatim>\<open>Obj:*\<close> condition, given that the actor the objection
  needs exists, the manipulator returns, and the subcomments of the harassment comment are
  the subcomments it had followed by exactly one injected entry; that entry has
  \<^verbatim>\<open>commentID\<close> 96, and its time is \<^verbatim>\<open>(Date.now() - 3h) - user.createdAt\<close>: three hours
  before the request, written as an offset from the creation of the account.
\<close>

theorem C2_objection_injected:
  assumes "condition u \<in> set objectionConditions"
    and "requiredObjectionActor (condition u) d = Some a"
  shows "\<exists>v' i s. fst (applyManipulationToFirstVideo e v u d) = Inr v' \<and>
           harassmentCommentIndexAfter v d = Some i \<and>
           subcomments (comments v' ! i) = existingSubcomments v @ [s] \<and>
           commentID s = 96 \<and>
           time s = (now e - 3 * 60 * 60 * 1000) - createdAt u"
proof -
  define w where "w = v\<lparr>comments := commentsBeforeSwitch e v u d\<rparr>"
  define ai where "ai = List.find (\<lambda>a. username a = ''VidShare Bot'') (actors d)"
  define hs where "hs = filter (\<lambda>a. actor_class a = Some ''objection'' \<and> username a \<noteq> ''VidShare Bot'') (actors d)"
  from indexAfter_Some[OF required_actor_store[OF assms(2)], of v] obtain i
    where i: "harassmentCommentIndexAfter v d = Some i" by (elim exE)
  have len: "i < length (comments w)"
    using indexAfter_less[OF i] by (simp add: w_def)
  have fst_eq: "fst (applyManipulationToFirstVideo e v u d) =
      switchCondition e u ai hs (env_or (HARASSMENT_COMMENT e) defaultHarassmentComment) (Some i) w"
    unfolding applyManipulation_fst w_def ai_def hs_def by (simp add: i)
  have req: "(if startsWith (condition u) ''Obj:AI:'' then ai else firstActor hs) = Some a"
    using assms(2)
    unfolding requiredObjectionActor_def ai_def hs_def Actor_findOne_username_def
        Actor_find_class_not_username_def by (simp split: if_splits)
  from switch_Obj[OF assms(1), of e ai hs "env_or (HARASSMENT_COMMENT e) defaultHarassmentComment" "Some i" w]
  obtain tx cls where sw: "switchCondition e u ai hs
       (env_or (HARASSMENT_COMMENT e) defaultHarassmentComment) (Some i) w =
     Inr (applyObjection e u (Some a) tx cls (Some i) w)"
    unfolding req by (elim exE)
  define v' where "v' = applyObjection e u (Some a) tx cls (Some i) w"
  have sub: "subcomments (comments v' ! i) = existingSubcomments v @ [objectionSubcomment e u a tx cls]"
    using applyObjection_effect(3)[OF len v'_def] before_subcomments[OF i, of e u]
    by (simp add: w_def)
  have "fst (applyManipulationToFirstVideo e v u d) = Inr v'"
    by (simp add: fst_eq sw v'_def)
  moreover have "commentID (objectionSubcomment e u a tx cls) = 96"
    and "time (objectionSubcomment e u a tx cls) = (now e - 3 * 60 * 60 * 1000) - createdAt u"
    by (simp_all add: objectionSubcomment_def)
  ultimately show ?thesis using i sub by blast
qed

theorem C2_objection_injected_witness:
  "condition (ex_user ''Obj:Com:Ref'' []) \<in> set objectionConditions \<and>
   requiredObjectionActor (condition (ex_user ''Obj:Com:Ref'' [])) ex_db = Some ex_human \<and>
   (\<exists>v' i s. fst (applyManipulationToFirstVideo ex_env ex_video0 (ex_user ''Obj:Com:Ref'' []) ex_db) = Inr v' \<and>
           harassmentCommentIndexAfter ex_video0 ex_db = Some i \<and>
           subcomments (comments v' ! i) = existingSubcomments ex_video0 @ [s] \<and>
           commentID s = 96 \<and>
           time s = (now ex_env - 3 * 60 * 60 * 1000) - createdAt (ex_user ''Obj:Com:Ref'' []))"
proof -
  have h1: "condition (ex_user ''Obj:Com:Ref'' []) \<in> set objectionConditions"
    by (simp add: ex_user_def objectionConditions_def)
  have h2: "requiredObjectionActor (condition (ex_user ''Obj:Com:Ref'' [])) ex_db = Some ex_human"
    by (simp add: requiredObjectionActor_def startsWith_def Actor_find_class_not_username_def
        firstActor_def ex_defs)
  from C2_objection_injected[OF h1 h2] h1 h2 show ?thesis by simp
qed

text \<open>
  The claim as stated fails: one hour after the account was created the injected entry has
  the time \<open>-7200000\<close>, not the offset \<open>-10800000\<close> of three hours before creation.
\<close>

theorem C2_fixed_offset_counterexample:
  "condition (ex_user ''Obj:AI:NoRef'' []) \<in> set objectionConditions \<and>
   requiredObjectionActor (condition (ex_user ''Obj:AI:NoRef'' [])) ex_db = Some ex_bot \<and>
   \<not> isl (fst (applyManipulationToFirstVideo ex_env ex_video0 (ex_user ''Obj:AI:NoRef'' []) ex_db)) \<and>
   map commentID (subcomments (comments (projr (fst (applyManipulationToFirstVideo ex_env ex_video0
      (ex_user ''Obj:AI:NoRef'' []) ex_db))) ! 1)) = [96] \<and>
   map time (subcomments (comments (projr (fst (applyManipulationToFirstVideo ex_env ex_video0
      (ex_user ''Obj:AI:NoRef'' []) ex_db))) ! 1)) = [- 7200000] \<and>
   (- 7200000 :: int) \<noteq> - 3 * 60 * 60 * 1000"
  by (simp add: manip_defs ex_defs objectionConditions_def requiredObjectionActor_def
      Actor_findOne_username_def)

text \<open>
  Claim C3, as amended. When no comment has the class \<^verbatim>\<open>offense1\<close> and no body contains
  the canonical text: if the actor collection is empty the video is returned unchanged, for
  every condition; otherwise a harassment comment with \<^verbatim>\<open>commentID\<close> 999 is appended after
  the comments of the video, however many there are, and the switch on the condition is
  applied to it.
\<close>

theorem C3_synthetic_comment:
  assumes "\<forall>c\<in>set (comments v). class_tag c \<noteq> ''offense1'' \<and> \<not> str_includes (body c) canonicalText"
  shows "(actors d = [] \<longrightarrow> fst (applyManipulationToFirstVideo e v u d) = Inr v) \<and>
         (actors d \<noteq> [] \<longrightarrow>
            fst (applyManipulationToFirstVideo e v u d) =
              switchCondition e u
                (fst (Actor_findOne_username ''VidShare Bot'' d))
                (fst (Actor_find_class_not_username ''objection'' ''VidShare Bot'' d))
                (env_or (HARASSMENT_COMMENT e) defaultHarassmentComment)
                (Some (length (comments v)))
                (v\<lparr>comments := comments v @
                   [harassmentCommentObj (env_or (HARASSMENT_COMMENT e) defaultHarassmentComment)
                      (condition u) (hd (actors d))]\<rparr>) \<and>
            (\<exists>v'. fst (applyManipulationToFirstVideo e v u d) = Inr v' \<and>
               length (comments v') = Suc (length (comments v)) \<and>
               take (length (comments v)) (comments v') = comments v \<and>
               commentID (last (comments v')) = 999))"
proof -
  have none: "findHarassmentCommentIndex (comments v) = None"
    using assms by (simp add: findHarassmentCommentIndex_None_iff)
  show ?thesis
  proof (cases "actors d")
    case Nil
    have "harassmentCommentIndexAfter v d = None"
      by (simp add: harassmentCommentIndexAfter_def none Nil)
    moreover have "commentsBeforeSwitch e v u d = comments v"
      by (simp add: commentsBeforeSwitch_def none Nil)
    ultimately have "fst (applyManipulationToFirstVideo e v u d) = Inr v"
      unfolding applyManipulation_fst
      by (simp add: switchCondition_def applyControl_def at_index_def)
    with Nil show ?thesis by simp
  next
    case (Cons a as)
    define hc where "hc = env_or (HARASSMENT_COMMENT e) defaultHarassmentComment"
    define n where "n = length (comments v)"
    define w where "w = v\<lparr>comments := comments v @ [harassmentCommentObj hc (condition u) a]\<rparr>"
    define ai where "ai = fst (Actor_findOne_username ''VidShare Bot'' d)"
    define hs where "hs = fst (Actor_find_class_not_username ''objection'' ''VidShare Bot'' d)"
    have idx: "harassmentCommentIndexAfter v d = Some n"
      by (simp add: harassmentCommentIndexAfter_def none Cons n_def)
    have cbs: "commentsBeforeSwitch e v u d = comments w"
      by (simp add: commentsBeforeSwitch_def none Cons w_def hc_def)
    have eq: "fst (applyManipulationToFirstVideo e v u d) = switchCondition e u ai hs hc (Some n) w"
      unfolding applyManipulation_fst idx cbs
      by (simp add: ai_def hs_def hc_def w_def Actor_findOne_username_def
          Actor_find_class_not_username_def)
    have len: "n < length (comments w)" by (simp add: w_def n_def)
    have wn: "comments w ! n = harassmentCommentObj hc (condition u) a"
      by (simp add: w_def n_def)
    have "\<exists>v'. switchCondition e u ai hs hc (Some n) w = Inr v' \<and>
            length (comments v') = length (comments w) \<and>
            (\<forall>j. j \<noteq> n \<longrightarrow> comments v' ! j = comments w ! j) \<and>
            commentID (comments v' ! n) = commentID (comments w ! n)"
    proof -
      consider (ctl) "condition u = ''Control''"
        | (rem) "condition u \<in> set removalConditions"
        | (obj) "condition u \<in> set objectionConditions"
        | (other) "condition u \<notin> set conditionMessages"
        unfolding conditionMessages_cases by blast
      then show ?thesis
      proof cases
        case ctl
        show ?thesis
          using applyControl_effect(1,2,6)[OF len refl]
          by (simp add: switch_Control[OF ctl])
      next
        case rem
        have "\<exists>notice cls. switchCondition e u ai hs hc (Some n) w = applyRemoval notice cls (Some n) w"
          using rem by (auto simp: removalConditions_def switchCondition_def) blast+
        then obtain notice cls where
          sw: "switchCondition e u ai hs hc (Some n) w = applyRemoval notice cls (Some n) w"
          by (elim exE)
        have "\<exists>v'. applyRemoval notice cls (Some n) w = Inr v'"
          using len wn
          by (simp add: applyRemoval_def at_index_def Let_def setDeletedActor_def
              setHarassmentCommentTime_def harassmentCommentObj_def)
        then obtain v' where ar: "applyRemoval notice cls (Some n) w = Inr v'" by (elim exE)
        show ?thesis
          using applyRemoval_effect(1,2,7)[OF len ar] by (simp add: sw ar)
      next
        case obj
        from switch_Obj[OF obj, of e ai hs hc "Some n" w] obtain tx cls where
          sw: "switchCondition e u ai hs hc (Some n) w =
                 Inr (applyObjection e u (if startsWith (condition u) ''Obj:AI:'' then ai else firstActor hs) tx cls (Some n) w)"
          by (elim exE)
        show ?thesis
          using applyObjection_effect(1,2,6)[OF len refl]
          by (simp add: sw)
      next
        case other
        then have "switchCondition e u ai hs hc (Some n) w = Inr w"
          by (simp add: switchCondition_def conditionMessages_def)
        then show ?thesis by simp
      qed
    qed
    then obtain v' where sw: "switchCondition e u ai hs hc (Some n) w = Inr v'"
      and l: "length (comments v') = length (comments w)"
      and others: "\<forall>j. j \<noteq> n \<longrightarrow> comments v' ! j = comments w ! j"
      and cid: "commentID (comments v' ! n) = commentID (comments w ! n)"
      by (elim exE conjE)
    have l': "length (comments v') = Suc n" using l by (simp add: w_def n_def)
    have tk: "take n (comments v') = comments v"
    proof (rule nth_equalityI)
      show "length (take n (comments v')) = length (comments v)"
        using l' by (simp add: n_def)
    next
      fix j assume "j < length (take n (comments v'))"
      then have j: "j < n" by simp
      then have "comments v' ! j = comments w ! j" using others by simp
      with j show "take n (comments v') ! j = comments v ! j"
        by (simp add: w_def n_def nth_append)
    qed
    have lst: "commentID (last (comments v')) = 999"
    proof -
      have "comments v' \<noteq> []" using l' by auto
      then have "last (comments v') = comments v' ! n"
        using l' by (simp add: last_conv_nth)
      then show ?thesis using cid wn by (simp add: harassmentCommentObj_def)
    qed
    from eq sw l' tk lst Cons show ?thesis
      by (simp add: ai_def hs_def hc_def w_def n_def)
  qed
qed

theorem C3_synthetic_comment_witness:
  "list_all (\<lambda>c. class_tag c \<noteq> ''offense1'' \<and> \<not> str_includes (body c) canonicalText)
     (comments ex_video1) \<and>
   actors ex_db \<noteq> [] \<and>
   (\<exists>v'. fst (applyManipulationToFirstVideo ex_env ex_video1 (ex_user ''Rem:AI:NoRef'' []) ex_db) = Inr v' \<and>
      length (comments v') = Suc (length (comments ex_video1)) \<and>
      take (length (comments ex_video1)) (comments v') = comments ex_video1 \<and>
      commentID (last (comments v')) = 999)"
proof -
  have h: "\<forall>c\<in>set (comments ex_video1). class_tag c \<noteq> ''offense1'' \<and> \<not> str_includes (body c) canonicalText"
    by (simp add: ex_defs canonicalText_def)
  have a: "actors ex_db \<noteq> []" by (simp add: ex_defs)
  have h': "list_all (\<lambda>c. class_tag c \<noteq> ''offense1'' \<and> \<not> str_includes (body c) canonicalText)
     (comments ex_video1)"
    using h by (simp only: list_all_iff)
  from C3_synthetic_comment[OF h, of ex_db ex_env "ex_user ''Rem:AI:NoRef'' []"] a
  have "\<exists>v'. fst (applyManipulationToFirstVideo ex_env ex_video1 (ex_user ''Rem:AI:NoRef'' []) ex_db) = Inr v' \<and>
      length (comments v') = Suc (length (comments ex_video1)) \<and>
      take (length (comments ex_video1)) (comments v') = comments ex_video1 \<and>
      commentID (last (comments v')) = 999"
    by blast
  with h' a show ?thesis by blast
qed

text \<open>
  The claim as stated fails: a video with one ordinary comment, under \<^verbatim>\<open>Rem:AI:NoRef\<close>,
  is not left alone; the comment 999 is appended and turned into a removal notice.
\<close>

theorem C3_noop_counterexample:
  "comments ex_video1 \<noteq> [] \<and>
   list_all (\<lambda>c. class_tag c \<noteq> ''offense1'' \<and> \<not> str_includes (body c) canonicalText) (comments ex_video1) \<and>
   condition (ex_user ''Rem:AI:NoRef'' []) \<noteq> ''Control'' \<and>
   fst (applyManipulationToFirstVideo ex_env ex_video1 (ex_user ''Rem:AI:NoRef'' []) ex_db) \<noteq> Inr ex_video1 \<and>
   map commentID (comments (projr (fst (applyManipulationToFirstVideo ex_env ex_video1
      (ex_user ''Rem:AI:NoRef'' []) ex_db)))) = [20, 999] \<and>
   map class_tag (comments (projr (fst (applyManipulationToFirstVideo ex_env ex_video1
      (ex_user ''Rem:AI:NoRef'' []) ex_db)))) = [''normal'', ''ai_removal_no_ref'']"
  by (simp add: manip_defs ex_defs)

text \<open>
  Claim C4. For every \<^verbatim>\<open>Rem:*\<close> condition, after the manipulation the harassment comment
  (the comment at the index the manipulator works on, found or created) has the actor name
  \<^verbatim>\<open>[deleted]\<close>, no subcomments and \<^verbatim>\<open>allowInteractions\<close> false; among the nine
  conditions \<^verbatim>\<open>allowInteractions\<close> is true exactly for \<^verbatim>\<open>Control\<close> and the \<^verbatim>\<open>Obj:*\<close>
  conditions.
\<close>

theorem C4_removal_and_allowInteractions:
  assumes "condition u \<in> set conditionMessages"
    and "harassmentCommentIndexAfter v d = Some i"
    and "fst (applyManipulationToFirstVideo e v u d) = Inr v'"
  shows "(condition u \<in> set removalConditions \<longrightarrow>
            map_option username (actor (comments v' ! i)) = Some ''[deleted]'' \<and>
            subcomments (comments v' ! i) = [] \<and>
            allowInteractions (comments v' ! i) = Some False) \<and>
         (allowInteractions (comments v' ! i) = Some True \<longleftrightarrow>
            condition u = ''Control'' \<or> condition u \<in> set objectionConditions)"
proof -
  define w where "w = v\<lparr>comments := commentsBeforeSwitch e v u d\<rparr>"
  have len: "i < length (comments w)"
    using indexAfter_less[OF assms(2)] by (simp add: w_def)
  have before: "allowInteractions (comments w ! i) = Some (isObjectionCondition (condition u))"
    using before_at_index[OF assms(2)] by (simp add: w_def)
  have sw: "switchCondition e u
        (List.find (\<lambda>a. username a = ''VidShare Bot'') (actors d))
        (filter (\<lambda>a. actor_class a = Some ''objection'' \<and> username a \<noteq> ''VidShare Bot'') (actors d))
        (env_or (HARASSMENT_COMMENT e) defaultHarassmentComment) (Some i) w = Inr v'"
    using assms(3) unfolding applyManipulation_fst w_def by (simp add: assms(2))
  from assms(1) consider (ctl) "condition u = ''Control''"
    | (rem) "condition u \<in> set removalConditions"
    | (obj) "condition u \<in> set objectionConditions"
    unfolding conditionMessages_cases by blast
  then show ?thesis
  proof cases
    case ctl
    from sw have "v' = applyControl (env_or (HARASSMENT_COMMENT e) defaultHarassmentComment) (Some i) w"
      unfolding switch_Control[OF ctl] by simp
    from applyControl_effect(5)[OF len this] show ?thesis
      by (simp add: ctl control_not_removal)
  next
    case rem
    from switch_Rem[OF rem len sw] obtain notice cls
      where ar: "applyRemoval notice cls (Some i) w = Inr v'" by (elim exE)
    have ai: "allowInteractions (comments v' ! i) = Some False"
      using applyRemoval_effect(6)[OF len ar] before removal_startsWith[OF rem] by simp
    show ?thesis
      using applyRemoval_effect(3,4)[OF len ar] ai removal_startsWith[OF rem]
        removal_not_objection[OF rem] by simp
  next
    case obj
    from switch_Obj_Inr[OF obj sw] obtain tx cls oa where
      v': "v' = applyObjection e u oa tx cls (Some i) w"
      by (elim exE)
    have ai: "allowInteractions (comments v' ! i) = Some True"
      using applyObjection_effect(5)[OF len v'] before objection_startsWith[OF obj] by simp
    show ?thesis
      using ai obj removal_not_objection[of "condition u"] by auto
  qed
qed



theorem C4_removal_and_allowInteractions_witness:
  "condition (ex_user ''Rem:AI:Ref'' []) \<in> set conditionMessages \<and>
   harassmentCommentIndexAfter ex_video0 ex_db = Some 1 \<and>
   (\<exists>v'. fst (applyManipulationToFirstVideo ex_env ex_video0 (ex_user ''Rem:AI:Ref'' []) ex_db) = Inr v' \<and>
      condition (ex_user ''Rem:AI:Ref'' []) \<in> set removalConditions \<and>
      map_option username (actor (comments v' ! 1)) = Some ''[deleted]'' \<and>
      subcomments (comments v' ! 1) = [] \<and>
      allowInteractions (comments v' ! 1) = Some False)"
proof -
  let ?u = "ex_user ''Rem:AI:Ref'' []"
  have h1: "condition ?u \<in> set conditionMessages"
    by (simp add: ex_user_def conditionMessages_def)
  have r: "condition ?u \<in> set removalConditions"
    by (simp add: ex_user_def removalConditions_def)
  obtain v' where h3: "fst (applyManipulationToFirstVideo ex_env ex_video0 ?u ex_db) = Inr v'"
    by (simp add: manip_defs ex_defs)
  from C4_removal_and_allowInteractions[OF h1 ex_indexAfter h3] r h1 h3 ex_indexAfter show ?thesis by simp
qed

text \<open>
  Claim C5, as amended. For a video whose action-log entry has \<^verbatim>\<open>liked\<close> true, a replay that
  returns sets the property \<^verbatim>\<open>like\<close> of the video to true and increments its \<^verbatim>\<open>likes\<close> by
  exactly 1; \<^verbatim>\<open>unliked\<close> sets \<^verbatim>\<open>unlike\<close> and increments \<^verbatim>\<open>unlikes\<close> by 1; \<^verbatim>\<open>flagged\<close> sets
  \<^verbatim>\<open>flag\<close>. Without the entry's flag the counter is unchanged, and the properties
  \<^verbatim>\<open>liked\<close>, \<^verbatim>\<open>unliked\<close> and \<^verbatim>\<open>flagged\<close> of the video are not written.
\<close>

theorem C5_post_overlay:
  assumes "findIndex (\<lambda>x. post x = post_ident v) (feedAction u) = Some k"
    and "replayVideo u v = Inr v'"
  shows "(post_liked (feedAction u ! k) \<longrightarrow>
            map_of (props v') ''like'' = Some True \<and> post_likes v' = post_likes v + 1) \<and>
         (post_unliked (feedAction u ! k) \<longrightarrow>
            map_of (props v') ''unlike'' = Some True \<and> post_unlikes v' = post_unlikes v + 1) \<and>
         (post_flagged (feedAction u ! k) \<longrightarrow> map_of (props v') ''flag'' = Some True) \<and>
         (\<not> post_liked (feedAction u ! k) \<longrightarrow> post_likes v' = post_likes v) \<and>
         (\<not> post_unliked (feedAction u ! k) \<longrightarrow> post_unlikes v' = post_unlikes v) \<and>
         map_of (props v') ''liked'' = map_of (props v) ''liked'' \<and>
         map_of (props v') ''unliked'' = map_of (props v) ''unliked'' \<and>
         map_of (props v') ''flagged'' = map_of (props v) ''flagged''"
proof -
  from replayVideo_Some_Inr[OF assms] obtain cs where
    v': "v' = applyPostActions (feedAction u ! k) (v\<lparr>comments := cs\<rparr>)" by blast
  show ?thesis
    unfolding v' applyPostActions_likes applyPostActions_unlikes applyPostActions_props
    by simp
qed

theorem C5_post_overlay_witness:
  "findIndex (\<lambda>x. post x = post_ident ex_video0) (feedAction (ex_user ''Control'' ex_log_likes)) = Some 0 \<and>
   post_liked (feedAction (ex_user ''Control'' ex_log_likes) ! 0) \<and>
   (\<exists>v'. replayVideo (ex_user ''Control'' ex_log_likes) ex_video0 = Inr v' \<and>
      map_of (props v') ''like'' = Some True \<and> post_likes v' = post_likes ex_video0 + 1)"
proof -
  let ?u = "ex_user ''Control'' ex_log_likes"
  have h1: "findIndex (\<lambda>x. post x = post_ident ex_video0) (feedAction ?u) = Some 0"
    by (simp add: ex_defs ex_log_likes_def)
  have l: "post_liked (feedAction ?u ! 0)"
    by (simp add: ex_defs ex_log_likes_def)
  obtain v' where h2: "replayVideo ?u ex_video0 = Inr v'"
    by (simp add: replay_defs Let_def ex_defs ex_log_likes_def)
  from C5_post_overlay[OF h1 h2] l h1 h2 show ?thesis by blast
qed

text \<open>
  The claim as stated fails: after the replay of an entry with \<^verbatim>\<open>liked\<close>, \<^verbatim>\<open>unliked\<close> and
  \<^verbatim>\<open>flagged\<close> true, the video has the properties \<^verbatim>\<open>like\<close>, \<^verbatim>\<open>unlike\<close> and \<^verbatim>\<open>flag\<close>, and
  its \<^verbatim>\<open>liked\<close>, \<^verbatim>\<open>unliked\<close> and \<^verbatim>\<open>flagged\<close> are still undefined.
\<close>

theorem C5_liked_field_counterexample:
  "post_liked (feedAction (ex_user ''Control'' ex_log_likes) ! 0) \<and>
   post_unliked (feedAction (ex_user ''Control'' ex_log_likes) ! 0) \<and>
   post_flagged (feedAction (ex_user ''Control'' ex_log_likes) ! 0) \<and>
   \<not> isl (replayVideo (ex_user ''Control'' ex_log_likes) ex_video0) \<and>
   props (projr (replayVideo (ex_user ''Control'' ex_log_likes) ex_video0)) =
     [(''like'', True), (''unlike'', True), (''flag'', True)] \<and>
   map_of (props (projr (replayVideo (ex_user ''Control'' ex_log_likes) ex_video0))) ''liked'' = None \<and>
   map_of (props (projr (replayVideo (ex_user ''Control'' ex_log_likes) ex_video0))) ''unliked'' = None \<and>
   map_of (props (projr (replayVideo (ex_user ''Control'' ex_log_likes) ex_video0))) ''flagged'' = None"
  by (simp add: replay_defs Let_def ex_defs ex_log_likes_def)

text \<open>
  Claim C6 (feed assembly never fails; a new reply whose \<^verbatim>\<open>parent_comment\<close> matches no
  top-level comment is skipped). The code fails on such a reply: for the key 77 no comment
  is found, \<^verbatim>\<open>commentIndex\<close> is \<^verbatim>\<open>-1\<close>, and line 192 reads a property of \<^verbatim>\<open>undefined\<close>.
\<close>

theorem C6_dangling_reply_TypeError:
  "fst (getFeed ex_env (ex_user ''Control'' ex_log_dangling) ex_db) = Inl TypeError"
  by (simp add: feed_defs manip_defs replay_defs ex_defs ex_log_dangling_def ex_reply_def)

text \<open>
  Claim C7. After the replay of a video that has an action-log entry, the top-level comments
  are sorted by time, descending; and for each parent key under which the log has new
  replies, the comment found by that \<^verbatim>\<open>commentID\<close> has as subcomments the subcomments it
  had, followed by the buffered replies, sorted by time, ascending.
\<close>

theorem C7_sorted_after_replay:
  assumes "findIndex (\<lambda>x. post x = post_ident v) (feedAction u) = Some k"
    and "replayVideo u v = Inr v'"
  shows "sorted_wrt (\<lambda>a b. time b \<le> time a) (comments v') \<and>
         (\<forall>key. bufferedReplies (feedAction u ! k) key \<noteq> [] \<longrightarrow>
            (\<exists>j. findIndex (\<lambda>x. Some (commentID x) = key) (comments v') = Some j \<and>
                subcomments (comments v' ! j) =
                  sortByTimeAsc (subcomments (commentsBeforeMerge (feedAction u ! k) v ! j) @
                    bufferedReplies (feedAction u ! k) key) \<and>
                sorted (map time (subcomments (comments v' ! j)))))"
proof -
  define a where "a = feedAction u ! k"
  define cs0 where "cs0 = sortByTimeDesc (fst (replayComments a v))"
  define es where "es = Object_entries (snd (replayComments a v))"
  from replayVideo_Some_Inr[OF assms] obtain cs where
    mr: "mergeReplies es cs0 = Inr cs" and v': "v' = applyPostActions a (v\<lparr>comments := cs\<rparr>)"
    unfolding a_def cs0_def es_def by (elim exE conjE)
  have cv: "comments v' = cs" by (simp add: v' applyPostActions_comments)
  note ns = mergeReplies_noSubs[OF mr]
  have srt: "sorted_wrt (\<lambda>a b. time b \<le> time a) cs"
    by (rule sorted_wrt_time_cong[OF map_noSubs_field(1)[OF ns]])
      (simp add: cs0_def sortByTimeDesc_sorted)
  have dist: "distinct (map fst es)"
    by (simp add: es_def distinct_Object_entries replayComments_distinct)
  have merged: "\<exists>j. findIndex (\<lambda>x. Some (commentID x) = key) cs = Some j \<and>
                subcomments (cs ! j) = sortByTimeAsc (subcomments (cs0 ! j) @ bufferedReplies a key) \<and>
                sorted (map time (subcomments (cs ! j)))"
    if "bufferedReplies a key \<noteq> []" for key
  proof -
    from buffered_in_dict[OF that] have "(key, bufferedReplies a key) \<in> set es"
      by (simp add: es_def set_Object_entries)
    from mergeReplies_merged[OF mr dist this] obtain j where
      j: "findIndex (\<lambda>x. Some (commentID x) = key) cs0 = Some j"
      and sub: "subcomments (cs ! j) = sortByTimeAsc (subcomments (cs0 ! j) @ bufferedReplies a key)"
      by (elim exE conjE)
    have "findIndex (\<lambda>x. Some (commentID x) = key) cs = findIndex (\<lambda>x. Some (commentID x) = key) cs0"
      using findIndex_cong_map[OF map_noSubs_field(2)[OF ns], of "\<lambda>n. Some n = key"] by simp
    with j sub show ?thesis by (simp add: sortByTimeAsc_sorted)
  qed
  show ?thesis
    unfolding cv commentsBeforeMerge_def using srt merged by (simp add: a_def cs0_def)
qed

theorem C7_sorted_after_replay_witness:
  "findIndex (\<lambda>x. post x = post_ident ex_video0) (feedAction (ex_user ''Control'' ex_log_replies)) = Some 0 \<and>
   map time (bufferedReplies (feedAction (ex_user ''Control'' ex_log_replies) ! 0) (Some 13)) = [9000, 4000] \<and>
   (\<exists>v'. replayVideo (ex_user ''Control'' ex_log_replies) ex_video0 = Inr v' \<and>
      sorted_wrt (\<lambda>a b. time b \<le> time a) (comments v') \<and>
      map time (comments v') = [- 3600000, - 7200000] \<and>
      (\<exists>j. findIndex (\<lambda>x. Some (commentID x) = Some 13) (comments v') = Some j \<and>
           sorted (map time (subcomments (comments v' ! j)))) \<and>
      map time (subcomments (comments v' ! 1)) = [4000, 9000])"
proof -
  let ?u = "ex_user ''Control'' ex_log_replies"
  have h1: "findIndex (\<lambda>x. post x = post_ident ex_video0) (feedAction ?u) = Some 0"
    by (simp add: ex_defs ex_log_replies_def)
  have b: "map time (bufferedReplies (feedAction ?u ! 0) (Some 13)) = [9000, 4000]"
    by (simp add: bufferedReplies_def isReplyTo_def replyCat_def ex_defs ex_log_replies_def
        ex_reply_def)
  then have bne: "bufferedReplies (feedAction ?u ! 0) (Some 13) \<noteq> []" by auto
  have "\<exists>v'. replayVideo ?u ex_video0 = Inr v' \<and>
      map time (comments v') = [- 3600000, - 7200000] \<and>
      map time (subcomments (comments v' ! 1)) = [4000, 9000]"
    by (simp add: replay_defs Let_def ex_defs ex_log_replies_def ex_reply_def)
  then obtain v' where h2: "replayVideo ?u ex_video0 = Inr v'"
    and t: "map time (comments v') = [- 3600000, - 7200000]"
    and s: "map time (subcomments (comments v' ! 1)) = [4000, 9000]" by (elim exE conjE)
  note c7 = C7_sorted_after_replay[OF h1 h2]
  from c7 have srt: "sorted_wrt (\<lambda>a b. time b \<le> time a) (comments v')" by (elim conjE)
  from c7 bne have m: "\<exists>j. findIndex (\<lambda>x. Some (commentID x) = Some 13) (comments v') = Some j \<and>
           sorted (map time (subcomments (comments v' ! j)))"
    by blast
  from h1 b h2 srt t m s show ?thesis by (intro conjI exI[of _ v'])
qed



text \<open>
  Claim C9. Feed assembly never writes to the script or actor collections: the store that
  \<^verbatim>\<open>getFeed\<close> leaves is the store it was given, whether it returns a feed or fails.
\<close>

theorem C9_store_unchanged:
  "scripts (snd (getFeed e u d)) = scripts d \<and> actors (snd (getFeed e u d)) = actors d"
  by (simp add: getFeed_db)

text \<open>
  Claim C10. \<^verbatim>\<open>getTutorial(user)\<close> returns what \<^verbatim>\<open>getFeed(user)\<close> returns.
\<close>

theorem C10_tutorial_is_feed: "getTutorial e u d = getFeed e u d"
  by (simp add: getTutorial_def)

end
